theory Spec2Isabelle
  imports Complex_Main "HOL-Library.Multiset" "HOL-Library.Product_Lexorder"
begin

section \<open>Conventions of the embedding\<close>

text \<open>
  The questionnaire reader is Python on top of OpenCV and numpy. The embedding keeps
  the Python of \<^verbatim>\<open>detection_cases.py\<close>, \<^verbatim>\<open>detect0.py\<close> and of
  \<^verbatim>\<open>trouver_bords_ligne_echelle\<close> in \<^verbatim>\<open>reperage.py\<close>, function by function
  and under the source's names. What an OpenCV call returns (contours, connected
  components, the profile of a band) enters as data; what Python computes from it is
  modelled.

  Python integers are \<open>int\<close>. Python floats are modelled by exact reals: every float
  comparison of the modelled code (\<open>ratio_noir > 0.5\<close>, \<open>area > taille_min\<close>,
  \<open>ratio_min <= ratio <= ratio_max\<close>, \<open>distance < distance_min\<close>, the graduation
  positions) compares quotients of pixel counts and coordinates whose exact value is
  either equal to the bound or further from it than any rounding error, so the exact
  comparison decides as the float one does for every image size that fits in memory.
  The one exception is the mean of a window in the scale-edge search, where the sum of
  twenty floats may round; the model is the exact mean.

  A Python dictionary with fixed keys is a record; the field names carry a prefix
  because a record field is a constant (\<open>case_x c\<close> is \<open>case['x']\<close>).
\<close>

datatype erreur = ZeroDivisionError | ValueError | CvError

text \<open>Python's \<open>int(r)\<close> on a float truncates towards zero.\<close>

definition py_int :: "real \<Rightarrow> int" where
  "py_int r = (if 0 \<le> r then \<lfloor>r\<rfloor> else \<lceil>r\<rceil>)"

text \<open>
  A slice \<open>xs[a:b]\<close>: a negative bound counts from the end, both bounds are clamped
  to the length, and an empty range gives the empty list.
\<close>

definition py_borne :: "nat \<Rightarrow> int \<Rightarrow> nat" where
  "py_borne n i = (if i < 0 then nat (max 0 (int n + i)) else min n (nat i))"

definition py_tranche :: "'a list \<Rightarrow> int \<Rightarrow> int \<Rightarrow> 'a list" where
  "py_tranche xs a b =
     (let i = py_borne (length xs) a; j = py_borne (length xs) b
      in take (j - i) (drop i xs))"

text \<open>
  \<open>ds.index(min(ds))\<close>: the first position of the least entry. Both calls raise on an
  empty list only; the one caller passes the six distances to the graduations.
\<close>

fun py_index :: "int list \<Rightarrow> int \<Rightarrow> nat" where
  "py_index [] v = 0"
| "py_index (a # as) v = (if a = v then 0 else Suc (py_index as v))"

fun py_min :: "int list \<Rightarrow> int" where
  "py_min [] = 0"
| "py_min (a # as) = fold min as a"

section \<open>Checkbox detector (detection\_cases.py)\<close>

text \<open>A detected box: the dictionary with keys x, y, w, h, aire, ratio.\<close>

record case_r =
  case_x :: int
  case_y :: int
  case_w :: int
  case_h :: int
  case_aire :: int
  case_ratio :: real

text \<open>
  What OpenCV reports for one contour of \<open>cv2.findContours\<close>: the number of vertices
  of \<open>cv2.approxPolyDP\<close>, the rectangle of \<open>cv2.boundingRect\<close> and the area of
  \<open>cv2.contourArea\<close> (the area enclosed by the contour, a float).
\<close>

record contour =
  nb_sommets :: nat
  rect_x :: int
  rect_y :: int
  rect_w :: int
  rect_h :: int
  aire_contour :: real

text \<open>
  \<open>round(ratio, 2)\<close>, as rounding of the exact quotient to two decimals, ties to the
  even digit. The field it fills is never read again.
\<close>

definition arrondi2 :: "real \<Rightarrow> real" where
  "arrondi2 r =
     (let t = r * 100; f = \<lfloor>t\<rfloor>
      in (if t - of_int f < 1 / 2 then of_int f
          else if 1 / 2 < t - of_int f then of_int f + 1
          else if even f then of_int f else of_int f + 1) / 100)"

primrec detecter_cases :: "contour list \<Rightarrow> real \<Rightarrow> real \<Rightarrow> real \<Rightarrow> real \<Rightarrow> case_r list" where
  "detecter_cases [] aire_min aire_max ratio_min ratio_max = []"
| "detecter_cases (cnt # contours) aire_min aire_max ratio_min ratio_max =
     (if nb_sommets cnt = 4 then
        (let w = rect_w cnt; h = rect_h cnt; aire = aire_contour cnt;
             ratio = (if h > 0 then of_int w / of_int h else 0)
         in if aire_min \<le> aire \<and> aire \<le> aire_max \<and> ratio_min \<le> ratio \<and> ratio \<le> ratio_max
            then \<lparr>case_x = rect_x cnt, case_y = rect_y cnt, case_w = w, case_h = h,
                  case_aire = py_int aire, case_ratio = arrondi2 ratio\<rparr>
                 # detecter_cases contours aire_min aire_max ratio_min ratio_max
            else detecter_cases contours aire_min aire_max ratio_min ratio_max)
      else detecter_cases contours aire_min aire_max ratio_min ratio_max)"

text \<open>The call with the default arguments of the source.\<close>

definition detecter_cases_defaut :: "contour list \<Rightarrow> case_r list" where
  "detecter_cases_defaut contours = detecter_cases contours 1000 2500 0.85 1.4"

definition centre_x :: "case_r \<Rightarrow> real" where
  "centre_x c = of_int (case_x c) + of_int (case_w c) / 2"

definition centre_y :: "case_r \<Rightarrow> real" where
  "centre_y c = of_int (case_y c) + of_int (case_h c) / 2"

definition distance_centres :: "case_r \<Rightarrow> case_r \<Rightarrow> real" where
  "distance_centres c u = sqrt ((centre_x c - centre_x u)\<^sup>2 + (centre_y c - centre_y u)\<^sup>2)"

text \<open>The inner loop: is the candidate closer than \<open>distance_min\<close> to an accepted box?\<close>

fun est_doublon :: "int \<Rightarrow> case_r \<Rightarrow> case_r list \<Rightarrow> bool" where
  "est_doublon distance_min c [] = False"
| "est_doublon distance_min c (case_unique # reste) =
     (if distance_centres c case_unique < of_int distance_min then True
      else est_doublon distance_min c reste)"

text \<open>The outer loop over the candidates in sorted order, \<open>cases_uniques\<close> as accumulator.\<close>

fun dedupliquer_boucle :: "int \<Rightarrow> case_r list \<Rightarrow> case_r list \<Rightarrow> case_r list" where
  "dedupliquer_boucle distance_min [] cases_uniques = cases_uniques"
| "dedupliquer_boucle distance_min (c # reste) cases_uniques =
     dedupliquer_boucle distance_min reste
       (if \<not> est_doublon distance_min c cases_uniques then cases_uniques @ [c]
        else cases_uniques)"

text \<open>
  \<open>sorted(cases, key=aire, reverse=True)\<close> is a stable sort, largest area first;
  candidates of equal area keep their order, as the stable sort on the negated key does.
\<close>

definition trier_par_aire :: "case_r list \<Rightarrow> case_r list" where
  "trier_par_aire cases = sort_key (\<lambda>c. - case_aire c) cases"

definition dedupliquer_cases :: "case_r list \<Rightarrow> int \<Rightarrow> case_r list" where
  "dedupliquer_cases cases distance_min =
     (if cases = [] then []
      else dedupliquer_boucle distance_min (trier_par_aire cases) [])"

definition trier_yx :: "case_r list \<Rightarrow> case_r list" where
  "trier_yx cases = sort_key (\<lambda>c. (case_y c, case_x c)) cases"

text \<open>
  The loop of \<open>regrouper_par_lignes\<close> over \<open>cases_triees[1:]\<close>, with the rows already
  closed, the current row and its reference y as state; the last equation closes the
  last row.
\<close>

fun regrouper_boucle ::
  "int \<Rightarrow> case_r list \<Rightarrow> case_r list list \<Rightarrow> case_r list \<Rightarrow> int \<Rightarrow> case_r list list" where
  "regrouper_boucle tolerance_y [] lignes ligne_courante y_reference =
     (if ligne_courante \<noteq> [] then lignes @ [sort_key case_x ligne_courante] else lignes)"
| "regrouper_boucle tolerance_y (c # reste) lignes ligne_courante y_reference =
     (if \<bar>case_y c - y_reference\<bar> \<le> tolerance_y
      then regrouper_boucle tolerance_y reste lignes (ligne_courante @ [c]) y_reference
      else regrouper_boucle tolerance_y reste
             (lignes @ [sort_key case_x ligne_courante]) [c] (case_y c))"

definition regrouper_par_lignes :: "case_r list \<Rightarrow> int \<Rightarrow> case_r list list" where
  "regrouper_par_lignes cases tolerance_y =
     (if cases = [] then []
      else let cases_triees = trier_yx cases
           in regrouper_boucle tolerance_y (tl cases_triees) [] [hd cases_triees]
                (case_y (hd cases_triees)))"

definition detecter_cases_completes :: "contour list \<Rightarrow> case_r list" where
  "detecter_cases_completes contours =
     trier_yx (dedupliquer_cases (detecter_cases_defaut contours) 10)"

section \<open>Scale edges (reperage.py)\<close>

text \<open>
  \<open>trouver_bords_ligne_echelle\<close> binarises a band around the scale line with OpenCV and
  sums it by column (\<open>np.sum(binary, axis=0)\<close>); these column sums are the input here.
  \<open>projection.max()\<close> raises ValueError on an array without columns.
\<close>

definition moyenne :: "real list \<Rightarrow> real" where
  "moyenne xs = sum_list xs / real (length xs)"

definition normaliser :: "nat list \<Rightarrow> real list" where
  "normaliser sommes =
     (if Max (set sommes) > 0 then map (\<lambda>v. real v / real (Max (set sommes))) sommes
      else map real sommes)"

text \<open>
  The left search, \<open>for x in range(len(projection) - largeur_min)\<close> with the window
  \<open>projection[x:x+largeur_min]\<close>, and the right search,
  \<open>for x in range(len(projection)-1, largeur_min, -1)\<close> with the window
  \<open>projection[x-largeur_min:x]\<close>; each stops at the first window whose mean exceeds
  the threshold and yields None when there is none.
\<close>

definition chercher_bord_gauche :: "real list \<Rightarrow> real \<Rightarrow> nat \<Rightarrow> nat option" where
  "chercher_bord_gauche projection seuil largeur_min =
     find (\<lambda>x. moyenne (take largeur_min (drop x projection)) > seuil)
       [0 ..< length projection - largeur_min]"

definition chercher_bord_droit :: "real list \<Rightarrow> real \<Rightarrow> nat \<Rightarrow> nat option" where
  "chercher_bord_droit projection seuil largeur_min =
     find (\<lambda>x. moyenne (take largeur_min (drop (x - largeur_min) projection)) > seuil)
       (rev [Suc largeur_min ..< length projection])"

text \<open>
  The last line of the source, \<open>(x_gauche, x_droite) if x_gauche and x_droite else None\<close>,
  tests the truth value of both edges: None and the integer 0 are both false.
\<close>

definition py_vrai :: "nat option \<Rightarrow> bool" where
  "py_vrai v = (case v of None \<Rightarrow> False | Some n \<Rightarrow> n \<noteq> 0)"

definition trouver_bords_ligne_echelle :: "nat list \<Rightarrow> erreur + (int \<times> int) option" where
  "trouver_bords_ligne_echelle sommes =
     (if sommes = [] then Inl ValueError
      else let projection = normaliser sommes;
               seuil = 0.15;
               largeur_min = 20;
               x_gauche = chercher_bord_gauche projection seuil largeur_min;
               x_droite = chercher_bord_droit projection seuil largeur_min
           in Inr (if py_vrai x_gauche \<and> py_vrai x_droite
                   then Some (int (the x_gauche), int (the x_droite)) else None))"

section \<open>Scale, offset and scale scoring (detect0.py)\<close>

record point =
  pt_x :: int
  pt_y :: int

record echelle =
  gauche :: point
  droite :: point

text \<open>
  What one page gives to the analysis: the scale line of \<open>trouver_ligne_echelle\<close>
  (None when no line is found), the column sums of the band around a given y, the
  connected components (labels 1 and up) that OpenCV finds in the band under a given
  scale, the contours of the page and the grey levels of the page, row by row.
\<close>

record composante =
  cc_left :: int
  cc_top :: int
  cc_width :: int
  cc_height :: int
  cc_area :: int
  centroid_x :: real
  centroid_y :: real

record page_obs =
  obs_ligne :: "(int \<times> int \<times> int \<times> int) option"
  obs_sommes :: "int \<Rightarrow> nat list"
  obs_composantes :: "echelle \<Rightarrow> composante list"
  obs_contours :: "contour list"
  obs_gris :: "nat list list"

definition detecter_echelle_seule :: "page_obs \<Rightarrow> erreur + echelle option" where
  "detecter_echelle_seule img =
     (case obs_ligne img of
        None \<Rightarrow> Inr None
      | Some (x1, y_echelle, x2, y2) \<Rightarrow>
          (case trouver_bords_ligne_echelle (obs_sommes img y_echelle) of
             Inl e \<Rightarrow> Inl e
           | Inr None \<Rightarrow> Inr None
           | Inr (Some (x_gauche, x_droite)) \<Rightarrow>
               Inr (Some \<lparr>gauche = \<lparr>pt_x = x_gauche, pt_y = y_echelle\<rparr>,
                          droite = \<lparr>pt_x = x_droite, pt_y = y_echelle\<rparr>\<rparr>)))"

definition calculer_dx :: "echelle option \<Rightarrow> echelle option \<Rightarrow> int" where
  "calculer_dx echelle_template echelle_reponse =
     (case (echelle_template, echelle_reponse) of
        (Some t, Some r) \<Rightarrow> pt_x (gauche r) - pt_x (gauche t)
      | _ \<Rightarrow> 0)"

definition MARGE_CROP :: int where "MARGE_CROP = 250"
definition AIRE_MIN_BLOB :: int where "AIRE_MIN_BLOB = 200"
definition LARGEUR_MAX_CHIFFRE :: int where "LARGEUR_MAX_CHIFFRE = 45"

record blob =
  blob_x :: int
  blob_y :: int
  blob_w :: int
  blob_h :: int
  blob_area :: int
  blob_cx :: int
  blob_cy :: int

text \<open>Step 5 of \<open>coter_echelle\<close>: the components of area above \<open>AIRE_MIN_BLOB\<close>.\<close>

primrec blobs_significatifs :: "composante list \<Rightarrow> blob list" where
  "blobs_significatifs [] = []"
| "blobs_significatifs (s # stats) =
     (if cc_area s > AIRE_MIN_BLOB
      then \<lparr>blob_x = cc_left s, blob_y = cc_top s, blob_w = cc_width s, blob_h = cc_height s,
            blob_area = cc_area s, blob_cx = py_int (centroid_x s),
            blob_cy = py_int (centroid_y s)\<rparr> # blobs_significatifs stats
      else blobs_significatifs stats)"

definition x_grad :: "int \<Rightarrow> real \<Rightarrow> nat \<Rightarrow> int" where
  "x_grad x_gauche_crop largeur_graduation score =
     x_gauche_crop + py_int (real score * largeur_graduation)"

definition score_proche :: "int \<Rightarrow> real \<Rightarrow> int \<Rightarrow> nat" where
  "score_proche x_gauche_crop largeur_graduation cx_absolu =
     (let distances = map (\<lambda>score. \<bar>cx_absolu - x_grad x_gauche_crop largeur_graduation score\<bar>)
                          [0 ..< 6]
      in py_index distances (py_min distances))"

text \<open>Step 7: the loop over the pencil blobs, \<open>scores_detectes\<close> as accumulator.\<close>

fun associer_graduations :: "int \<Rightarrow> real \<Rightarrow> blob list \<Rightarrow> nat list \<Rightarrow> nat list" where
  "associer_graduations x_gauche_crop largeur_graduation [] scores_detectes = scores_detectes"
| "associer_graduations x_gauche_crop largeur_graduation (b # reste) scores_detectes =
     (let s = score_proche x_gauche_crop largeur_graduation (blob_cx b)
      in associer_graduations x_gauche_crop largeur_graduation reste
           (if s \<notin> set scores_detectes then scores_detectes @ [s] else scores_detectes))"

text \<open>
  \<open>coter_echelle\<close>, from the scale and the components of the band. The picture it
  writes is left out. The crop starts at \<open>x_crop_min\<close>, so the band's x coordinates are
  the page's minus \<open>x_crop_min\<close>.
\<close>

definition coter_echelle :: "echelle option \<Rightarrow> composante list \<Rightarrow> nat list" where
  "coter_echelle ech stats =
     (case ech of
        None \<Rightarrow> []
      | Some e \<Rightarrow>
         (let x_gauche = pt_x (gauche e);
              x_droite = pt_x (droite e);
              largeur_totale = x_droite - x_gauche;
              largeur_graduation = real_of_int largeur_totale / 5;
              x_crop_min = max 0 (x_gauche - MARGE_CROP);
              x_gauche_crop = x_gauche - x_crop_min;
              blobs_info = blobs_significatifs stats;
              blobs_crayonnages = filter (\<lambda>b. blob_w b > LARGEUR_MAX_CHIFFRE) blobs_info
          in sort (associer_graduations x_gauche_crop largeur_graduation blobs_crayonnages [])))"

section \<open>Mark classifier (detect0.py)\<close>

definition SEUIL_REMPLISSAGE :: real where "SEUIL_REMPLISSAGE = 0.5"
definition MIN_COMPOSANTES :: nat where "MIN_COMPOSANTES = 1"
definition TOLERANCE_X :: int where "TOLERANCE_X = 200"

datatype type_case = Vide | Noire | Traits

datatype info_case = Aucune | RatioNoir real | NbObjets nat

text \<open>
  \<open>cv2.threshold(roi, 180, 255, cv2.THRESH_BINARY_INV)\<close>: a pixel above the threshold
  becomes 0, any other 255. OpenCV refuses an image without pixels.
\<close>

definition seuil_binaire_inv :: "nat \<Rightarrow> nat list list \<Rightarrow> nat list list" where
  "seuil_binaire_inv seuil roi = map (map (\<lambda>p. if p > seuil then 0 else 255)) roi"

definition count_nonzero :: "nat list list \<Rightarrow> nat" where
  "count_nonzero binaire = sum_list (map (\<lambda>ligne. length (filter (\<lambda>v. v \<noteq> 0) ligne)) binaire)"

text \<open>The loop over the components 1 and up, counting those larger than \<open>taille_min\<close>.\<close>

primrec compter_grosses :: "real \<Rightarrow> int list \<Rightarrow> nat" where
  "compter_grosses taille_min [] = 0"
| "compter_grosses taille_min (area # reste) =
     (if of_int area > taille_min then Suc (compter_grosses taille_min reste)
      else compter_grosses taille_min reste)"

text \<open>
  \<open>analyser_case\<close>. The first argument stands for
  \<open>cv2.connectedComponentsWithStats\<close>: the areas of the components 1 and up of a
  binary image.
\<close>

definition interieur :: "nat list list \<Rightarrow> case_r \<Rightarrow> nat list list" where
  "interieur img c =
     (let marge_x = py_int (of_int (case_w c) * 0.25);
          marge_y = py_int (of_int (case_h c) * 0.25);
          x_int = case_x c + marge_x;
          y_int = case_y c + marge_y;
          w_int = case_w c - 2 * marge_x;
          h_int = case_h c - 2 * marge_y
      in map (\<lambda>ligne. py_tranche ligne x_int (x_int + w_int))
             (py_tranche img y_int (y_int + h_int)))"

definition aire_interieur :: "case_r \<Rightarrow> int" where
  "aire_interieur c =
     (let marge_x = py_int (of_int (case_w c) * 0.25);
          marge_y = py_int (of_int (case_h c) * 0.25);
          w_int = case_w c - 2 * marge_x;
          h_int = case_h c - 2 * marge_y
      in w_int * h_int)"

definition analyser_case ::
  "(nat list list \<Rightarrow> int list) \<Rightarrow> nat list list \<Rightarrow> case_r \<Rightarrow> erreur + (type_case \<times> info_case)" where
  "analyser_case cc_aires img c =
     (let roi = interieur img c
      in if concat roi = [] then Inl CvError
         else let binaire = seuil_binaire_inv 180 roi
              in if aire_interieur c = 0 then Inl ZeroDivisionError
                 else let ratio_noir = real (count_nonzero binaire) / of_int (aire_interieur c)
                      in if ratio_noir > SEUIL_REMPLISSAGE then Inr (Noire, RatioNoir ratio_noir)
                         else let taille_min = of_int (aire_interieur c) * 0.1;
                                  nb_grosses_composantes =
                                    compter_grosses taille_min (cc_aires binaire)
                              in if nb_grosses_composantes \<ge> MIN_COMPOSANTES
                                 then Inr (Traits, NbObjets nb_grosses_composantes)
                                 else Inr (Vide, Aucune))"

section \<open>Matching and page analysis (detect0.py)\<close>

record case_tmpl =
  tmpl_x :: int
  tmpl_y :: int
  tmpl_w :: int
  tmpl_h :: int

text \<open>
  A page of the template: its scale, if any, and \<open>contenu\<close>, the dictionary from
  question identifiers to the expected boxes (\<open>contenu[q_id]['cases']\<close>), as an
  association list with distinct keys.
\<close>

record template_page =
  tp_echelle :: "echelle option"
  tp_contenu :: "(string \<times> case_tmpl list) list"

text \<open>The inner loop with its \<open>break\<close>: is an empty box detected near \<open>x_attendu\<close>?\<close>

fun trouve :: "case_r list \<Rightarrow> int \<Rightarrow> bool" where
  "trouve [] x_attendu = False"
| "trouve (case_det # reste) x_attendu =
     (if \<bar>case_x case_det - x_attendu\<bar> < TOLERANCE_X then True else trouve reste x_attendu)"

definition trouver_cases_template_manquantes :: "case_r list \<Rightarrow> case_tmpl list \<Rightarrow> int \<Rightarrow> nat list" where
  "trouver_cases_template_manquantes ligne_vides cases_template dx =
     (if ligne_vides = [] then [0 ..< length cases_template]
      else map fst (filter (\<lambda>(idx, case_tmpl). \<not> trouve ligne_vides (tmpl_x case_tmpl + dx))
                      (enumerate 0 cases_template)))"

datatype etat = Cochee | VideR

record reponse =
  rep_index :: nat
  rep_reponse :: etat
  rep_x :: int
  rep_y :: int
  rep_w :: int
  rep_h :: int

text \<open>The body of the loop that builds \<open>reponses_ordonnees\<close>, for one template index.\<close>

definition reponse_pour ::
  "case_r list \<Rightarrow> case_tmpl list \<Rightarrow> int \<Rightarrow> int \<Rightarrow> nat list \<Rightarrow> nat \<Rightarrow> reponse" where
  "reponse_pour ligne_vides cases_template dx y_ligne indices_manquants idx =
     (let case_tm = cases_template ! idx
      in if idx \<in> set indices_manquants
         then \<lparr>rep_index = idx, rep_reponse = Cochee, rep_x = tmpl_x case_tm + dx,
               rep_y = y_ligne, rep_w = tmpl_w case_tm, rep_h = tmpl_h case_tm\<rparr>
         else (case find (\<lambda>c. \<bar>case_x c - (tmpl_x case_tm + dx)\<bar> < TOLERANCE_X) ligne_vides of
                 Some case_vide \<Rightarrow>
                   \<lparr>rep_index = idx, rep_reponse = VideR, rep_x = case_x case_vide,
                    rep_y = case_y case_vide, rep_w = case_w case_vide, rep_h = case_h case_vide\<rparr>
               | None \<Rightarrow>
                   \<lparr>rep_index = idx, rep_reponse = VideR, rep_x = tmpl_x case_tm + dx,
                    rep_y = y_ligne, rep_w = tmpl_w case_tm, rep_h = tmpl_h case_tm\<rparr>))"

definition calculer_y_ligne :: "case_r list \<Rightarrow> case_tmpl list \<Rightarrow> int" where
  "calculer_y_ligne ligne_vides cases_template =
     (if ligne_vides \<noteq> []
      then py_int (of_int (sum_list (map case_y ligne_vides)) / real (length ligne_vides))
      else (case cases_template of [] \<Rightarrow> 0 | c0 # _ \<Rightarrow> tmpl_y c0))"

definition reponses_ordonnees :: "case_r list \<Rightarrow> case_tmpl list \<Rightarrow> int \<Rightarrow> reponse list" where
  "reponses_ordonnees ligne_vides cases_template dx =
     (let y_ligne = calculer_y_ligne ligne_vides cases_template;
          indices_manquants = trouver_cases_template_manquantes ligne_vides cases_template dx
      in map (reponse_pour ligne_vides cases_template dx y_ligne indices_manquants)
             [0 ..< length cases_template])"

text \<open>The decimal digits of a number, for \<open>f"question_{num_question}"\<close>.\<close>

fun str_nat :: "nat \<Rightarrow> string" where
  "str_nat n = (if n < 10 then [''0123456789'' ! n]
                else str_nat (n div 10) @ [''0123456789'' ! (n mod 10)])"

declare str_nat.simps [simp del]

definition q_id :: "nat \<Rightarrow> string" where
  "q_id num_question = ''question_'' @ str_nat num_question"

text \<open>
  The loop that sorts the detected boxes into empty, dark and stroked ones; an
  exception of \<open>analyser_case\<close> leaves the loop.
\<close>

fun classer_cases ::
  "(nat list list \<Rightarrow> int list) \<Rightarrow> nat list list \<Rightarrow> case_r list \<Rightarrow>
   case_r list \<times> (case_r \<times> info_case) list \<times> (case_r \<times> info_case) list \<Rightarrow>
   erreur + (case_r list \<times> (case_r \<times> info_case) list \<times> (case_r \<times> info_case) list)" where
  "classer_cases cc_aires gray [] acc = Inr acc"
| "classer_cases cc_aires gray (c # reste) (cases_vides, cases_noires, cases_traits) =
     (case analyser_case cc_aires gray c of
        Inl e \<Rightarrow> Inl e
      | Inr (Vide, info) \<Rightarrow>
          classer_cases cc_aires gray reste (cases_vides @ [c], cases_noires, cases_traits)
      | Inr (Noire, info) \<Rightarrow>
          classer_cases cc_aires gray reste (cases_vides, cases_noires @ [(c, info)], cases_traits)
      | Inr (Traits, info) \<Rightarrow>
          classer_cases cc_aires gray reste (cases_vides, cases_noires, cases_traits @ [(c, info)]))"

text \<open>
  The rows of empty boxes of a page: detection, classification, grouping of the empty
  boxes with the default tolerance of 50.
\<close>

definition lignes_vides_page ::
  "(nat list list \<Rightarrow> int list) \<Rightarrow> page_obs \<Rightarrow> erreur + case_r list list" where
  "lignes_vides_page cc_aires img =
     (case classer_cases cc_aires (obs_gris img)
             (detecter_cases_completes (obs_contours img)) ([], [], []) of
        Inl e \<Rightarrow> Inl e
      | Inr (cases_vides, cases_noires, cases_traits) \<Rightarrow> Inr (regrouper_par_lignes cases_vides 50))"

text \<open>
  The loop over the questions 1 to \<open>nb_questions\<close>; a number whose identifier is not in
  the template is skipped. The result is \<open>questions_json\<close> in insertion order.
\<close>

definition analyser_questions ::
  "case_r list list \<Rightarrow> (string \<times> case_tmpl list) list \<Rightarrow> int \<Rightarrow> (string \<times> reponse list) list" where
  "analyser_questions lignes_vides contenu dx =
     (let nb_questions = min (length lignes_vides) (length contenu)
      in List.map_filter
           (\<lambda>num_question.
              case map_of contenu (q_id num_question) of
                None \<Rightarrow> None
              | Some cases_template \<Rightarrow>
                  (let ligne_vides = (if num_question \<le> length lignes_vides
                                      then lignes_vides ! (num_question - 1) else [])
                   in Some (q_id num_question, reponses_ordonnees ligne_vides cases_template dx)))
           [1 ..< nb_questions + 1])"

text \<open>
  The page record: either the page number with the error message (written without its
  accents here), or the page number, the offset, the scale scores and the questions.
\<close>

datatype page_resultat =
    PageErreur nat string
  | PageAnalysee nat int "nat list" "(string \<times> reponse list) list"

definition analyser_page ::
  "(nat list list \<Rightarrow> int list) \<Rightarrow> page_obs \<Rightarrow> nat \<Rightarrow> template_page \<Rightarrow> erreur + page_resultat" where
  "analyser_page cc_aires img page_num template =
     (case detecter_echelle_seule img of
        Inl e \<Rightarrow> Inl e
      | Inr None \<Rightarrow> Inr (PageErreur page_num ''Echelle non detectee'')
      | Inr (Some echelle_reponse) \<Rightarrow>
          (let dx = calculer_dx (tp_echelle template) (Some echelle_reponse);
               scores_echelle = coter_echelle (Some echelle_reponse)
                                  (obs_composantes img echelle_reponse)
           in case lignes_vides_page cc_aires img of
                Inl e \<Rightarrow> Inl e
              | Inr lignes_vides \<Rightarrow>
                  Inr (PageAnalysee page_num dx scores_echelle
                         (analyser_questions lignes_vides (tp_contenu template) dx))))"

text \<open>
  What a reader of the record finds under \<open>erreur\<close> and under \<open>questions\<close>
  (\<open>page.get('questions', {})\<close> in the programs that read the record).
\<close>

fun erreur_de :: "page_resultat \<Rightarrow> string option" where
  "erreur_de (PageErreur n msg) = Some msg"
| "erreur_de (PageAnalysee n dx scores qs) = None"

fun questions_de :: "page_resultat \<Rightarrow> (string \<times> reponse list) list" where
  "questions_de (PageErreur n msg) = []"
| "questions_de (PageAnalysee n dx scores qs) = qs"

text \<open>
  The loop of \<open>main\<close> over the pages, numbered from 1, with \<open>resultats['pages']\<close> as
  accumulator. There is no exception handler: an exception in a page ends the run.
\<close>

fun main_boucle ::
  "(nat list list \<Rightarrow> int list) \<Rightarrow> template_page \<Rightarrow> nat \<Rightarrow> page_obs list \<Rightarrow>
   page_resultat list \<Rightarrow> erreur + page_resultat list" where
  "main_boucle cc_aires template page_num [] pages_out = Inr pages_out"
| "main_boucle cc_aires template page_num (img # reste) pages_out =
     (case analyser_page cc_aires img page_num template of
        Inl e \<Rightarrow> Inl e
      | Inr page_data \<Rightarrow>
          main_boucle cc_aires template (Suc page_num) reste (pages_out @ [page_data]))"

definition main :: "(nat list list \<Rightarrow> int list) \<Rightarrow> template_page \<Rightarrow> page_obs list \<Rightarrow>
   erreur + page_resultat list" where
  "main cc_aires template pages = main_boucle cc_aires template 1 pages []"

section \<open>Named quantities and example inputs\<close>

text \<open>A box of 40 by 40 pixels at a given place, and the five boxes of the row example.\<close>

definition bx :: "int \<Rightarrow> int \<Rightarrow> case_r" where
  "bx xx yy = \<lparr>case_x = xx, case_y = yy, case_w = 40, case_h = 40, case_aire = 1600,
              case_ratio = 1\<rparr>"

definition cases_ex5 :: "case_r list" where
  "cases_ex5 = [bx 10 100, bx 300 105, bx 200 102, bx 50 400, bx 10 403]"

text \<open>Two candidates whose centres are 5 pixels apart (3 across, 4 down).\<close>

definition cand_a :: case_r where
  "cand_a = \<lparr>case_x = 100, case_y = 200, case_w = 44, case_h = 44, case_aire = 1849,
            case_ratio = 1\<rparr>"

definition cand_b :: case_r where
  "cand_b = \<lparr>case_x = 103, case_y = 204, case_w = 44, case_h = 44, case_aire = 1600,
            case_ratio = 1\<rparr>"

text \<open>
  Two larger candidates next to them. The centre of the first is 5 pixels from the
  centre of \<open>cand_a\<close> and 10 pixels from the centre of \<open>cand_b\<close>, on one line with
  them; the centre of the second is the centre of \<open>cand_a\<close>.
\<close>

definition cand_grand :: case_r where
  "cand_grand = \<lparr>case_x = 96, case_y = 195, case_w = 46, case_h = 46, case_aire = 2000,
                case_ratio = 1\<rparr>"

definition cand_englobant :: case_r where
  "cand_englobant = \<lparr>case_x = 99, case_y = 199, case_w = 46, case_h = 46, case_aire = 2000,
                    case_ratio = 1\<rparr>"

text \<open>
  Two candidates with the same upper left corner and different widths: their centres
  are 10 pixels apart.
\<close>

definition cand_etroit :: case_r where
  "cand_etroit = \<lparr>case_x = 100, case_y = 200, case_w = 36, case_h = 40, case_aire = 1300,
                 case_ratio = 0.9\<rparr>"

definition cand_large :: case_r where
  "cand_large = \<lparr>case_x = 100, case_y = 200, case_w = 56, case_h = 40, case_aire = 2100,
                case_ratio = 1.4\<rparr>"

text \<open>
  Three contours as OpenCV reports them. The first is the axis-parallel square with
  corners (0,0), (50,0), (50,50), (0,50): it encloses 50 * 50 = 2500 square pixels and
  its bounding rectangle counts the 51 by 51 pixels it touches. The second has three
  vertices, the third is too wide for its height.
\<close>

definition contour_carre_50 :: contour where
  "contour_carre_50 = \<lparr>nb_sommets = 4, rect_x = 0, rect_y = 0, rect_w = 51, rect_h = 51,
                        aire_contour = 2500\<rparr>"

definition contour_triangle :: contour where
  "contour_triangle = \<lparr>nb_sommets = 3, rect_x = 200, rect_y = 0, rect_w = 45, rect_h = 45,
                        aire_contour = 1012\<rparr>"

definition contour_large :: contour where
  "contour_large = \<lparr>nb_sommets = 4, rect_x = 400, rect_y = 0, rect_w = 71, rect_h = 50,
                     aire_contour = 2450\<rparr>"






text \<open>
  The column sums of a band of 40 rows and 41 columns that is dark all over (each
  column sums to 40 * 255): content that starts at column 0.
\<close>

definition sommes_bande_pleine :: "nat list" where
  "sommes_bande_pleine = replicate 41 10200"

text \<open>
  Names for what \<open>coter_echelle\<close> computes from a scale: the scale's left end in the
  crop, the spacing of the graduations, the position of graduation \<open>k\<close> in the crop,
  and the score a component gets from its centroid.
\<close>

definition x_gauche_crop_de :: "echelle \<Rightarrow> int" where
  "x_gauche_crop_de e = pt_x (gauche e) - max 0 (pt_x (gauche e) - MARGE_CROP)"

definition largeur_graduation_de :: "echelle \<Rightarrow> real" where
  "largeur_graduation_de e = real_of_int (pt_x (droite e) - pt_x (gauche e)) / 5"

definition position_graduation :: "echelle \<Rightarrow> nat \<Rightarrow> int" where
  "position_graduation e k = x_grad (x_gauche_crop_de e) (largeur_graduation_de e) k"

definition score_de :: "echelle \<Rightarrow> composante \<Rightarrow> nat" where
  "score_de e s =
     score_proche (x_gauche_crop_de e) (largeur_graduation_de e) (py_int (centroid_x s))"

text \<open>
  A scale from x = 300 to x = 1300 at y = 2000 and three components of the band under
  it: a printed digit under graduation 3, a pencil mark centred on graduation 3
  (position 250 + 600 in the crop), and a speck.
\<close>

definition echelle_ex :: echelle where
  "echelle_ex = \<lparr>gauche = \<lparr>pt_x = 300, pt_y = 2000\<rparr>, droite = \<lparr>pt_x = 1300, pt_y = 2000\<rparr>\<rparr>"

definition comp_chiffre :: composante where
  "comp_chiffre = \<lparr>cc_left = 836, cc_top = 10, cc_width = 30, cc_height = 44, cc_area = 610,
                    centroid_x = 850.2, centroid_y = 31.5\<rparr>"

definition comp_crayon :: composante where
  "comp_crayon = \<lparr>cc_left = 805, cc_top = 60, cc_width = 92, cc_height = 70, cc_area = 2300,
                   centroid_x = 850.7, centroid_y = 96.1\<rparr>"

definition comp_poussiere :: composante where
  "comp_poussiere = \<lparr>cc_left = 100, cc_top = 150, cc_width = 50, cc_height = 3, cc_area = 120,
                      centroid_x = 124.5, centroid_y = 151\<rparr>"

text \<open>
  A scanned page of 1400 by 2200 pixels. Its scale band is dark from column 20 to the
  right border, on the line y = 2000. The band under the scale holds the three
  components of the scoring example. Four boxes are found on one row, at x = 103, 303,
  503 and 703, each with the inner contour of its frame as a second, smaller candidate.
  The grey levels are white but for a patch of ink of 35 by 35 pixels (rows 1005 to
  1039, columns 308 to 342) inside the box at x = 303; the frames of the boxes, which
  lie outside the interiors that the classifier reads, are left white. The connected
  components of a binarised interior are taken to be one block holding all its ink, or
  none.
\<close>

definition ligne_blanche :: "nat list" where
  "ligne_blanche = replicate 1400 255"

definition ligne_encree :: "nat list" where
  "ligne_encree = replicate 308 255 @ replicate 35 0 @ replicate 1057 255"

definition gris_ex :: "nat list list" where
  "gris_ex = replicate 1005 ligne_blanche @ replicate 35 ligne_encree
             @ replicate 1160 ligne_blanche"

definition box_contour :: "int \<Rightarrow> int \<Rightarrow> contour" where
  "box_contour xx yy = \<lparr>nb_sommets = 4, rect_x = xx, rect_y = yy, rect_w = 45, rect_h = 45,
                         aire_contour = 1936\<rparr>"

definition box_contour_interieur :: "int \<Rightarrow> int \<Rightarrow> contour" where
  "box_contour_interieur xx yy = \<lparr>nb_sommets = 4, rect_x = xx + 2, rect_y = yy + 2, rect_w = 41,
                                   rect_h = 41, aire_contour = 1600\<rparr>"

definition cc_un_bloc :: "nat list list \<Rightarrow> int list" where
  "cc_un_bloc binaire = (if count_nonzero binaire = 0 then [] else [int (count_nonzero binaire)])"

definition page_ex :: page_obs where
  "page_ex = \<lparr>obs_ligne = Some (20, 2000, 1400, 2000),
              obs_sommes = (\<lambda>y. replicate 20 0 @ replicate 1380 10200),
              obs_composantes = (\<lambda>e. [comp_chiffre, comp_crayon, comp_poussiere]),
              obs_contours = [box_contour 503 1000, box_contour_interieur 503 1000,
                              box_contour 103 1001, box_contour_interieur 103 1001,
                              box_contour 303 1000, box_contour_interieur 303 1000,
                              box_contour 703 999, box_contour_interieur 703 999],
              obs_gris = gris_ex\<rparr>"

text \<open>A page on which no scale line is found.\<close>

definition page_sans_echelle :: page_obs where
  "page_sans_echelle = \<lparr>obs_ligne = None,
              obs_sommes = (\<lambda>y. replicate 1400 0),
              obs_composantes = (\<lambda>e. []),
              obs_contours = [],
              obs_gris = replicate 2200 (replicate 1400 255)\<rparr>"

text \<open>
  The template: its scale starts at x = 1, and its one question expects four boxes at
  x = 100, 300, 500 and 700.
\<close>

definition tmpl_box :: "int \<Rightarrow> case_tmpl" where
  "tmpl_box xx = \<lparr>tmpl_x = xx, tmpl_y = 1000, tmpl_w = 45, tmpl_h = 45\<rparr>"

definition template_ex :: template_page where
  "template_ex = \<lparr>tp_echelle = Some \<lparr>gauche = \<lparr>pt_x = 1, pt_y = 2000\<rparr>,
                                       droite = \<lparr>pt_x = 1396, pt_y = 2000\<rparr>\<rparr>,
                  tp_contenu = [(''question_1'', [tmpl_box 100, tmpl_box 300, tmpl_box 500,
                                                  tmpl_box 700])]\<rparr>"

definition case_ex :: "int \<Rightarrow> int \<Rightarrow> case_r" where
  "case_ex xx yy = \<lparr>case_x = xx, case_y = yy, case_w = 45, case_h = 45, case_aire = 1936,
                    case_ratio = 1\<rparr>"

text \<open>An answer 'vide' with the geometry of a detected box of 45 by 45 pixels.\<close>

definition rep_vide :: "nat \<Rightarrow> int \<Rightarrow> int \<Rightarrow> reponse" where
  "rep_vide i xx yy = \<lparr>rep_index = i, rep_reponse = VideR, rep_x = xx, rep_y = yy, rep_w = 45, rep_h = 45\<rparr>"

section \<open>Properties\<close>

lemma sort_key_Nil_iff: "sort_key f xs = [] \<longleftrightarrow> xs = []"
  by (metis length_0_conv length_sort)

lemma sorted_map_fst_of_pair:
  fixes f :: "'a \<Rightarrow> int" and g :: "'a \<Rightarrow> int"
  shows "sorted (map (\<lambda>c. (f c, g c)) xs) \<Longrightarrow> sorted (map f xs)"
  by (induction xs) (auto simp: less_eq_prod_def)

subsection \<open>Row grouping\<close>

lemma trier_yx_Nil_iff: "trier_yx cases = [] \<longleftrightarrow> cases = []"
  by (simp add: trier_yx_def sort_key_Nil_iff)

lemma sorted_y_trier_yx: "sorted (map case_y (trier_yx cases))"
  unfolding trier_yx_def by (rule sorted_map_fst_of_pair[where g = case_x]) simp

lemma regrouper_boucle_segments:
  assumes "lc \<noteq> []" and "yref = case_y (hd lc)"
    and "sorted (map case_y (lc @ cs))"
    and "\<forall>c\<in>set (tl lc). \<bar>case_y c - yref\<bar> \<le> tol"
  shows "\<exists>segs. regrouper_boucle tol cs lignes lc yref = lignes @ map (sort_key case_x) segs
           \<and> concat segs = lc @ cs \<and> segs \<noteq> [] \<and> hd (hd segs) = hd lc
           \<and> (\<forall>s\<in>set segs. s \<noteq> [] \<and> (\<forall>c\<in>set (tl s). \<bar>case_y c - case_y (hd s)\<bar> \<le> tol))
           \<and> successively (\<lambda>s t. case_y (hd s) + tol < case_y (hd t)) segs"
  using assms
proof (induction cs arbitrary: lignes lc yref)
  case Nil
  then show ?case
    by (intro exI[of _ "[lc]"]) simp
next
  case (Cons c cs)
  show ?case
  proof (cases "\<bar>case_y c - yref\<bar> \<le> tol")
    case True
    have 1: "lc @ [c] \<noteq> []" by simp
    have 2: "yref = case_y (hd (lc @ [c]))" using Cons.prems by simp
    have 3: "sorted (map case_y ((lc @ [c]) @ cs))" using Cons.prems by simp
    have 4: "\<forall>d\<in>set (tl (lc @ [c])). \<bar>case_y d - yref\<bar> \<le> tol"
      using Cons.prems True by (cases lc) auto
    from Cons.IH[OF 1 2 3 4, of lignes] obtain segs where
      "regrouper_boucle tol cs lignes (lc @ [c]) yref = lignes @ map (sort_key case_x) segs"
      "concat segs = (lc @ [c]) @ cs" "segs \<noteq> []" "hd (hd segs) = hd (lc @ [c])"
      "\<forall>s\<in>set segs. s \<noteq> [] \<and> (\<forall>c\<in>set (tl s). \<bar>case_y c - case_y (hd s)\<bar> \<le> tol)"
      "successively (\<lambda>s t. case_y (hd s) + tol < case_y (hd t)) segs"
      by blast
    then show ?thesis using True Cons.prems(1)
      by (intro exI[of _ segs]) simp
  next
    case False
    have le: "yref \<le> case_y c"
      using Cons.prems(1,2,3) by (cases lc) (auto simp: sorted_append)
    have 1: "[c] \<noteq> []" by simp
    have 2: "case_y c = case_y (hd [c])" by simp
    have 3: "sorted (map case_y ([c] @ cs))" using Cons.prems by (simp add: sorted_append)
    have 4: "\<forall>d\<in>set (tl [c]). \<bar>case_y d - case_y c\<bar> \<le> tol" by simp
    from Cons.IH[OF 1 2 3 4, of "lignes @ [sort_key case_x lc]"] obtain segs where s:
      "regrouper_boucle tol cs (lignes @ [sort_key case_x lc]) [c] (case_y c)
         = (lignes @ [sort_key case_x lc]) @ map (sort_key case_x) segs"
      "concat segs = [c] @ cs" "segs \<noteq> []" "hd (hd segs) = hd [c]"
      "\<forall>s\<in>set segs. s \<noteq> [] \<and> (\<forall>c\<in>set (tl s). \<bar>case_y c - case_y (hd s)\<bar> \<le> tol)"
      "successively (\<lambda>s t. case_y (hd s) + tol < case_y (hd t)) segs"
      by blast
    have gt: "case_y (hd lc) + tol < case_y (hd (hd segs))"
      using False le s(4) Cons.prems(2) by simp
    have succ: "successively (\<lambda>s t. case_y (hd s) + tol < case_y (hd t)) (lc # segs)"
      using s(3,6) gt by (cases segs) simp_all
    show ?thesis
      using False s Cons.prems(1,2,4) succ
      by (intro exI[of _ "lc # segs"]) simp
  qed
qed

lemma regrouper_par_lignes_segments:
  "\<exists>segs. regrouper_par_lignes cases tol = map (sort_key case_x) segs
      \<and> concat segs = trier_yx cases
      \<and> (\<forall>s\<in>set segs. s \<noteq> [] \<and> (\<forall>c\<in>set (tl s). \<bar>case_y c - case_y (hd s)\<bar> \<le> tol))
      \<and> successively (\<lambda>s t. case_y (hd s) + tol < case_y (hd t)) segs"
proof (cases "cases = []")
  case True
  then show ?thesis by (intro exI[of _ "[]"]) (simp add: regrouper_par_lignes_def trier_yx_def)
next
  case False
  define ct where "ct = trier_yx cases"
  have ne: "ct \<noteq> []" using False by (simp add: ct_def trier_yx_Nil_iff)
  have srt: "sorted (map case_y ct)"
    unfolding ct_def by (rule sorted_y_trier_yx)
  have 1: "[hd ct] \<noteq> []" by simp
  have 2: "case_y (hd ct) = case_y (hd [hd ct])" by simp
  have 3: "sorted (map case_y ([hd ct] @ tl ct))" using ne srt by simp
  have 4: "\<forall>d\<in>set (tl [hd ct]). \<bar>case_y d - case_y (hd ct)\<bar> \<le> tol" by simp
  from regrouper_boucle_segments[OF 1 2 3 4, of "[]"] obtain segs where
      "regrouper_boucle tol (tl ct) [] [hd ct] (case_y (hd ct)) = [] @ map (sort_key case_x) segs"
      "concat segs = [hd ct] @ tl ct"
      "\<forall>s\<in>set segs. s \<noteq> [] \<and> (\<forall>c\<in>set (tl s). \<bar>case_y c - case_y (hd s)\<bar> \<le> tol)"
      "successively (\<lambda>s t. case_y (hd s) + tol < case_y (hd t)) segs"
    by blast
  then show ?thesis using False ne
    by (intro exI[of _ segs]) (simp add: regrouper_par_lignes_def ct_def[symmetric] Let_def)
qed

lemma regrouper_exemple:
  assumes "map case_y cases = [100, 105, 102, 400, 403]"
  shows "map length (regrouper_par_lignes cases 50) = [3, 2]"
proof -
  from assms obtain b1 b2 b3 b4 b5 where c: "cases = [b1, b2, b3, b4, b5]"
    by (auto simp: map_eq_Cons_conv)
  from assms c have ys: "case_y b1 = 100" "case_y b2 = 105" "case_y b3 = 102" "case_y b4 = 400" "case_y b5 = 403"
    by simp_all
  show ?thesis unfolding c
    by (simp add: regrouper_par_lignes_def trier_yx_def ys less_eq_prod_def)
qed

text \<open>
  Claim C5. Row grouping sorts the boxes by (y, x) and cuts the sorted list into
  consecutive segments: a box stays in the current row while its y is within the
  tolerance of the row's reference y (the y of the row's first box), and opens a new
  row exactly when its y exceeds that reference by more than the tolerance. Each row is
  returned sorted by x. Boxes at y = 100, 105, 102, 400, 403 with tolerance 50 give two
  rows of sizes 3 and 2.
\<close>

theorem regrouper_par_lignes_rows:
  "(\<exists>segs. regrouper_par_lignes cases tol = map (sort_key case_x) segs
      \<and> concat segs = trier_yx cases
      \<and> (\<forall>s\<in>set segs. s \<noteq> [] \<and> (\<forall>c\<in>set (tl s). \<bar>case_y c - case_y (hd s)\<bar> \<le> tol))
      \<and> successively (\<lambda>s t. case_y (hd s) + tol < case_y (hd t)) segs)
   \<and> sorted (map (\<lambda>c. (case_y c, case_x c)) (trier_yx cases))
   \<and> (\<forall>r\<in>set (regrouper_par_lignes cases tol). sorted (map case_x r))
   \<and> (map case_y cs5 = [100, 105, 102, 400, 403]
        \<longrightarrow> map length (regrouper_par_lignes cs5 50) = [3, 2])"
proof -
  have "\<forall>r\<in>set (regrouper_par_lignes cases tol). sorted (map case_x r)"
    using regrouper_par_lignes_segments[of cases tol] by auto
  moreover have "sorted (map (\<lambda>c. (case_y c, case_x c)) (trier_yx cases))"
    by (simp add: trier_yx_def)
  ultimately show ?thesis
    using regrouper_par_lignes_segments[of cases tol] regrouper_exemple[of cs5] by blast
qed

lemma mset_regrouper_boucle:
  "mset (concat (regrouper_boucle tol cs lignes lc yref)) = mset (concat lignes) + mset lc + mset cs"
  by (induction cs arbitrary: lignes lc yref) auto

text \<open>
  Claim C10. The rows are a partition of the input: their concatenation holds exactly
  the input boxes, each as often as the input does, and no box yields no row.
\<close>

theorem regrouper_par_lignes_partition:
  "mset (concat (regrouper_par_lignes cases tol)) = mset cases \<and> regrouper_par_lignes [] tol = []"
proof (cases "cases = []")
  case True then show ?thesis by (simp add: regrouper_par_lignes_def)
next
  case False
  define ct where "ct = trier_yx cases"
  have ne: "ct \<noteq> []" using False by (simp add: ct_def trier_yx_Nil_iff)
  have "mset ct = mset cases" by (simp add: ct_def trier_yx_def)
  moreover have "mset [hd ct] + mset (tl ct) = mset ct" using ne by (cases ct) simp_all
  ultimately show ?thesis using False
    by (simp add: regrouper_par_lignes_def ct_def[symmetric] Let_def mset_regrouper_boucle)
qed

lemma ex5_val: "regrouper_par_lignes cases_ex5 50 =
     [[bx 10 100, bx 200 102, bx 300 105], [bx 10 403, bx 50 400]]"
  by (simp add: regrouper_par_lignes_def trier_yx_def cases_ex5_def bx_def less_eq_prod_def)

theorem regrouper_par_lignes_rows_witness:
  "map case_y cases_ex5 = [100, 105, 102, 400, 403]
   \<and> map length (regrouper_par_lignes cases_ex5 50) = [3, 2]
   \<and> regrouper_par_lignes cases_ex5 50 =
     [[bx 10 100, bx 200 102, bx 300 105], [bx 10 403, bx 50 400]]
   \<and> sorted (map case_x (regrouper_par_lignes cases_ex5 50 ! 1))"
  using regrouper_par_lignes_rows[of cases_ex5 50 cases_ex5] ex5_val
  by (simp add: cases_ex5_def bx_def)

subsection \<open>Page offset\<close>

text \<open>
  Claim C7. The offset is the scan's scale-left x minus the template's scale-left x,
  and it is 0 as soon as the template's scale or the scan's scale is absent.
\<close>

theorem calculer_dx_difference:
  "calculer_dx (Some t) (Some r) = pt_x (gauche r) - pt_x (gauche t)
   \<and> calculer_dx None echelle_reponse = 0
   \<and> calculer_dx echelle_template None = 0"
  by (simp add: calculer_dx_def split: option.splits)


subsection \<open>Deduplication\<close>

lemma distance_centres_sym: "distance_centres a b = distance_centres b a"
  by (simp add: distance_centres_def power2_commute)

lemma est_doublon_iff:
  "est_doublon d c us \<longleftrightarrow> (\<exists>u\<in>set us. distance_centres c u < of_int d)"
  by (induction us) auto

lemma dedupliquer_boucle_append:
  "dedupliquer_boucle d (xs @ ys) acc = dedupliquer_boucle d ys (dedupliquer_boucle d xs acc)"
  by (induction xs arbitrary: acc) simp_all

lemma dedupliquer_boucle_extends:
  "\<exists>zs. dedupliquer_boucle d xs acc = acc @ zs"
proof (induction xs arbitrary: acc)
  case Nil
  show ?case by simp
next
  case (Cons c xs)
  show ?case
  proof (cases "est_doublon d c acc")
    case True
    then show ?thesis using Cons.IH[of acc] by simp
  next
    case False
    from Cons.IH[of "acc @ [c]"] obtain zs where
      "dedupliquer_boucle d xs (acc @ [c]) = (acc @ [c]) @ zs" by blast
    then show ?thesis using False by (intro exI[of _ "c # zs"]) simp
  qed
qed

lemma dedupliquer_boucle_separes:
  "sorted_wrt (\<lambda>u c. of_int d \<le> distance_centres c u) acc \<Longrightarrow>
   sorted_wrt (\<lambda>u c. of_int d \<le> distance_centres c u) (dedupliquer_boucle d xs acc)"
proof (induction xs arbitrary: acc)
  case Nil
  then show ?case by simp
next
  case (Cons c xs)
  show ?case
  proof (cases "est_doublon d c acc")
    case True
    then show ?thesis using Cons by simp
  next
    case False
    then have "sorted_wrt (\<lambda>u c. of_int d \<le> distance_centres c u) (acc @ [c])"
      using Cons.prems by (auto simp: sorted_wrt_append est_doublon_iff not_less)
    then show ?thesis using False Cons.IH[of "acc @ [c]"] by simp
  qed
qed

lemma dedupliquer_cases_boucle:
  "dedupliquer_cases cases d = dedupliquer_boucle d (trier_par_aire cases) []"
  by (simp add: dedupliquer_cases_def trier_par_aire_def)

lemma dedupliquer_deux:
  assumes "distance_centres a b < 10"
  shows "length (dedupliquer_cases [a, b] 10) = 1"
    and "case_aire b < case_aire a \<Longrightarrow> dedupliquer_cases [a, b] 10 = [a]"
    and "case_aire b < case_aire a \<Longrightarrow> dedupliquer_cases [b, a] 10 = [a]"
  using assms distance_centres_sym[of a b]
  by (simp_all add: dedupliquer_cases_def trier_par_aire_def)

lemma dedupliquer_boucle_subset:
  "set (dedupliquer_boucle d xs acc) \<subseteq> set acc \<union> set xs"
proof (induction xs arbitrary: acc)
  case Nil
  show ?case by simp
next
  case (Cons c xs)
  show ?case
  proof (cases "est_doublon d c acc")
    case True
    then show ?thesis using Cons.IH[of acc] by auto
  next
    case False
    then show ?thesis using Cons.IH[of "acc @ [c]"] by auto
  qed
qed

lemma sorted_wrt_sym_pairs:
  assumes "sorted_wrt P xs" and "\<And>x y. P x y \<Longrightarrow> P y x"
    and "x \<in> set xs" "y \<in> set xs" "x \<noteq> y"
  shows "P x y"
  using assms(1,3,4,5)
proof (induction xs)
  case Nil
  then show ?case by simp
next
  case (Cons z zs)
  then show ?case using assms(2) by auto
qed

lemma dedupliquer_cases_un_seul:
  assumes "a \<noteq> b" and "distance_centres a b < of_int d"
  shows "\<not> (a \<in> set (dedupliquer_cases cases d) \<and> b \<in> set (dedupliquer_cases cases d))"
proof
  assume ab: "a \<in> set (dedupliquer_cases cases d) \<and> b \<in> set (dedupliquer_cases cases d)"
  have s: "sorted_wrt (\<lambda>u c. of_int d \<le> distance_centres c u) (dedupliquer_cases cases d)"
    unfolding dedupliquer_cases_boucle by (rule dedupliquer_boucle_separes) simp
  have sym: "of_int d \<le> distance_centres x y" if "of_int d \<le> distance_centres y x" for x y
    using that by (simp add: distance_centres_sym)
  from sorted_wrt_sym_pairs[where P = "\<lambda>u c. of_int d \<le> distance_centres c u", OF s sym]
    ab assms(1)
  have "of_int d \<le> distance_centres b a" by blast
  then show False using assms(2) by (simp add: distance_centres_sym)
qed

lemma dedupliquer_boucle_couvre:
  assumes "sorted (map (\<lambda>c. - case_aire c) xs)"
    and "\<forall>u\<in>set acc. \<forall>x\<in>set xs. case_aire x \<le> case_aire u"
    and "x \<in> set xs"
  shows "x \<in> set (dedupliquer_boucle d xs acc)
         \<or> (\<exists>u\<in>set (dedupliquer_boucle d xs acc).
               case_aire x \<le> case_aire u \<and> distance_centres x u < of_int d)"
  using assms
proof (induction xs arbitrary: acc)
  case Nil
  then show ?case by simp
next
  case (Cons c xs)
  define acc' where "acc' = (if \<not> est_doublon d c acc then acc @ [c] else acc)"
  have res: "dedupliquer_boucle d (c # xs) acc = dedupliquer_boucle d xs acc'"
    by (simp add: acc'_def)
  from dedupliquer_boucle_extends[of d xs acc'] obtain zs where
    zs: "dedupliquer_boucle d xs acc' = acc' @ zs" by blast
  have inc: "set acc' \<subseteq> set (dedupliquer_boucle d xs acc')" unfolding zs by simp
  show ?case
  proof (cases "x = c")
    case True
    show ?thesis
    proof (cases "est_doublon d c acc")
      case dbl: True
      then obtain u where u: "u \<in> set acc" "distance_centres c u < of_int d"
        by (auto simp: est_doublon_iff)
      from u(1) Cons.prems(2) have "case_aire c \<le> case_aire u" by simp
      moreover from u(1) dbl inc have "u \<in> set (dedupliquer_boucle d xs acc')"
        by (auto simp: acc'_def)
      ultimately show ?thesis unfolding res using u(2) True by blast
    next
      case False
      then have "c \<in> set acc'" by (simp add: acc'_def)
      then show ?thesis unfolding res using inc True by blast
    qed
  next
    case False
    with Cons.prems(3) have x: "x \<in> set xs" by simp
    from Cons.prems(1) have s: "sorted (map (\<lambda>c. - case_aire c) xs)"
      and c: "\<forall>y\<in>set xs. case_aire y \<le> case_aire c" by auto
    have "\<forall>u\<in>set acc'. \<forall>y\<in>set xs. case_aire y \<le> case_aire u"
      using Cons.prems(2) c by (auto simp: acc'_def)
    from Cons.IH[OF s this x] show ?thesis unfolding res .
  qed
qed

lemma dedupliquer_cases_couvre:
  assumes "a \<in> set cases" and "a \<notin> set (dedupliquer_cases cases d)"
  shows "\<exists>u\<in>set (dedupliquer_cases cases d).
           case_aire a \<le> case_aire u \<and> distance_centres a u < of_int d"
proof -
  have "sorted (map (\<lambda>c. - case_aire c) (trier_par_aire cases))"
    by (simp add: trier_par_aire_def)
  moreover have "a \<in> set (trier_par_aire cases)" using assms(1) by (simp add: trier_par_aire_def)
  ultimately show ?thesis
    using dedupliquer_boucle_couvre[of "trier_par_aire cases" "[]" a d] assms(2)
    by (simp add: dedupliquer_cases_boucle)
qed

lemma dedupliquer_cases_subset: "set (dedupliquer_cases cases d) \<subseteq> set cases"
  using dedupliquer_boucle_subset[of d "trier_par_aire cases" "[]"]
  by (simp add: dedupliquer_cases_boucle trier_par_aire_def)

lemma dedupliquer_cases_plus_grand:
  assumes "a \<in> set cases"
    and "\<forall>u\<in>set cases. u \<noteq> a \<and> case_aire a \<le> case_aire u \<longrightarrow> of_int d \<le> distance_centres a u"
  shows "a \<in> set (dedupliquer_cases cases d)"
proof (rule ccontr)
  assume n: "a \<notin> set (dedupliquer_cases cases d)"
  from dedupliquer_cases_couvre[OF assms(1) n] obtain u where
    u: "u \<in> set (dedupliquer_cases cases d)" "case_aire a \<le> case_aire u"
       "distance_centres a u < of_int d" by blast
  from u(1) n have "u \<noteq> a" by blast
  moreover from u(1) dedupliquer_cases_subset have "u \<in> set cases" by blast
  ultimately show False using assms(2) u(2,3) by auto
qed

text \<open>
  Claim C4. Deduplication runs over the candidates by descending area (a stable sort of
  the input: candidates of equal area keep their order). The centre of a box is
  (x + w/2, y + h/2). A candidate is accepted exactly when its centre is at Euclidean
  distance at least \<open>distance_min\<close> from the centre of every candidate accepted before
  it; accepted candidates are never dropped again, the survivors are candidates of the
  input, and no two survivors are closer than \<open>distance_min\<close>. So of two different candidates closer than \<open>distance_min\<close> at most
  one survives. A candidate that does not survive is closer than \<open>distance_min\<close> to a
  survivor of at least its area; a candidate survives when every other candidate of at
  least its area is at distance \<open>distance_min\<close> or more. When two candidates whose
  centres are 5 pixels apart are the whole input, with the threshold 10, exactly one
  survives, and when their areas differ it is the larger one, in whichever order they
  are given.
\<close>

theorem dedupliquer_cases_greedy:
  "dedupliquer_cases cases d = dedupliquer_boucle d (trier_par_aire cases) []
   \<and> sorted (map (\<lambda>c. - case_aire c) (trier_par_aire cases))
   \<and> mset (trier_par_aire cases) = mset cases
   \<and> filter (\<lambda>c. case_aire c = k) (trier_par_aire cases) = filter (\<lambda>c. case_aire c = k) cases
   \<and> distance_centres c u =
       sqrt ((of_int (case_x c) + of_int (case_w c) / 2
                - (of_int (case_x u) + of_int (case_w u) / 2))\<^sup>2
           + (of_int (case_y c) + of_int (case_h c) / 2
                - (of_int (case_y u) + of_int (case_h u) / 2))\<^sup>2)
   \<and> dedupliquer_boucle d (pre @ [c]) [] =
       (if \<forall>u\<in>set (dedupliquer_boucle d pre []). of_int d \<le> distance_centres c u
        then dedupliquer_boucle d pre [] @ [c] else dedupliquer_boucle d pre [])
   \<and> (\<exists>zs. dedupliquer_boucle d (pre @ post) [] = dedupliquer_boucle d pre [] @ zs)
   \<and> set (dedupliquer_cases cases d) \<subseteq> set cases
   \<and> sorted_wrt (\<lambda>u c. of_int d \<le> distance_centres c u) (dedupliquer_cases cases d)
   \<and> (a \<noteq> b \<and> distance_centres a b < of_int d \<longrightarrow>
        \<not> (a \<in> set (dedupliquer_cases cases d) \<and> b \<in> set (dedupliquer_cases cases d)))
   \<and> (a \<in> set cases \<and> a \<notin> set (dedupliquer_cases cases d) \<longrightarrow>
        (\<exists>u\<in>set (dedupliquer_cases cases d).
            case_aire a \<le> case_aire u \<and> distance_centres a u < of_int d))
   \<and> (a \<in> set cases
        \<and> (\<forall>u\<in>set cases. u \<noteq> a \<and> case_aire a \<le> case_aire u \<longrightarrow>
              of_int d \<le> distance_centres a u)
        \<longrightarrow> a \<in> set (dedupliquer_cases cases d))
   \<and> (distance_centres a b = 5 \<longrightarrow>
        length (dedupliquer_cases [a, b] 10) = 1
        \<and> (case_aire b < case_aire a \<longrightarrow>
             dedupliquer_cases [a, b] 10 = [a] \<and> dedupliquer_cases [b, a] 10 = [a]))"
proof -
  have A: "dedupliquer_cases cases d = dedupliquer_boucle d (trier_par_aire cases) []"
    by (rule dedupliquer_cases_boucle)
  have B: "sorted (map (\<lambda>c. - case_aire c) (trier_par_aire cases))"
    by (simp add: trier_par_aire_def)
  have C: "mset (trier_par_aire cases) = mset cases"
    by (simp add: trier_par_aire_def)
  have T: "filter (\<lambda>c. case_aire c = k) (trier_par_aire cases)
           = filter (\<lambda>c. case_aire c = k) cases"
    using sort_key_stable[of "\<lambda>c. - case_aire c" "- k" cases] by (simp add: trier_par_aire_def)
  have Z: "distance_centres c u =
       sqrt ((of_int (case_x c) + of_int (case_w c) / 2
                - (of_int (case_x u) + of_int (case_w u) / 2))\<^sup>2
           + (of_int (case_y c) + of_int (case_h c) / 2
                - (of_int (case_y u) + of_int (case_h u) / 2))\<^sup>2)"
    by (simp add: distance_centres_def centre_x_def centre_y_def)
  have D: "dedupliquer_boucle d (pre @ [c]) [] =
       (if \<forall>u\<in>set (dedupliquer_boucle d pre []). of_int d \<le> distance_centres c u
        then dedupliquer_boucle d pre [] @ [c] else dedupliquer_boucle d pre [])"
    by (auto simp: dedupliquer_boucle_append est_doublon_iff not_less)
  have E: "\<exists>zs. dedupliquer_boucle d (pre @ post) [] = dedupliquer_boucle d pre [] @ zs"
    unfolding dedupliquer_boucle_append by (rule dedupliquer_boucle_extends)
  have S: "set (dedupliquer_cases cases d) \<subseteq> set cases"
    by (rule dedupliquer_cases_subset)
  have F: "sorted_wrt (\<lambda>u c. of_int d \<le> distance_centres c u) (dedupliquer_cases cases d)"
    unfolding A by (rule dedupliquer_boucle_separes) simp
  have G: "a \<noteq> b \<and> distance_centres a b < of_int d \<longrightarrow>
        \<not> (a \<in> set (dedupliquer_cases cases d) \<and> b \<in> set (dedupliquer_cases cases d))"
    using dedupliquer_cases_un_seul[of a b d cases] by blast
  have H: "a \<in> set cases \<and> a \<notin> set (dedupliquer_cases cases d) \<longrightarrow>
        (\<exists>u\<in>set (dedupliquer_cases cases d).
            case_aire a \<le> case_aire u \<and> distance_centres a u < of_int d)"
    using dedupliquer_cases_couvre[of a cases d] by blast
  have I: "a \<in> set cases
        \<and> (\<forall>u\<in>set cases. u \<noteq> a \<and> case_aire a \<le> case_aire u \<longrightarrow>
              of_int d \<le> distance_centres a u)
        \<longrightarrow> a \<in> set (dedupliquer_cases cases d)"
    using dedupliquer_cases_plus_grand[of a cases d] by blast
  have J: "distance_centres a b = 5 \<longrightarrow>
        length (dedupliquer_cases [a, b] 10) = 1
        \<and> (case_aire b < case_aire a \<longrightarrow>
             dedupliquer_cases [a, b] 10 = [a] \<and> dedupliquer_cases [b, a] 10 = [a])"
    using dedupliquer_deux[of a b] by simp
  show ?thesis by (intro conjI A B C T Z D E S F G H I J)
qed

lemma distance_cand: "distance_centres cand_a cand_b = 5"
proof -
  have "distance_centres cand_a cand_b = sqrt (5\<^sup>2)"
    by (simp add: distance_centres_def centre_x_def centre_y_def cand_a_def cand_b_def)
  then show ?thesis by simp
qed

lemma distance_grand:
  "distance_centres cand_a cand_grand = 5" "distance_centres cand_b cand_grand = 10"
proof -
  have "distance_centres cand_a cand_grand = sqrt (5\<^sup>2)"
    by (simp add: distance_centres_def centre_x_def centre_y_def cand_a_def cand_grand_def)
  then show "distance_centres cand_a cand_grand = 5" by simp
  have "distance_centres cand_b cand_grand = sqrt (10\<^sup>2)"
    by (simp add: distance_centres_def centre_x_def centre_y_def cand_b_def cand_grand_def)
  then show "distance_centres cand_b cand_grand = 10" by simp
qed

lemma distance_englobant:
  "distance_centres cand_a cand_englobant = 0" "distance_centres cand_b cand_englobant = 5"
proof -
  show "distance_centres cand_a cand_englobant = 0"
    by (simp add: distance_centres_def centre_x_def centre_y_def cand_a_def cand_englobant_def)
  have "distance_centres cand_b cand_englobant = sqrt (5\<^sup>2)"
    by (simp add: distance_centres_def centre_x_def centre_y_def cand_b_def cand_englobant_def)
  then show "distance_centres cand_b cand_englobant = 5" by simp
qed

lemma distance_etroit_large: "distance_centres cand_etroit cand_large = 10"
proof -
  have "distance_centres cand_etroit cand_large = sqrt (10\<^sup>2)"
    by (simp add: distance_centres_def centre_x_def centre_y_def cand_etroit_def cand_large_def)
  then show ?thesis by simp
qed

lemma aires_cand:
  "case_aire cand_a = 1849" "case_aire cand_b = 1600" "case_aire cand_grand = 2000"
  "case_aire cand_englobant = 2000" "case_aire cand_etroit = 1300" "case_aire cand_large = 2100"
  by (simp_all add: cand_a_def cand_b_def cand_grand_def cand_englobant_def cand_etroit_def
      cand_large_def)

lemma dedupliquer_trois_grand:
  "dedupliquer_cases [cand_a, cand_b, cand_grand] 10 = [cand_grand, cand_b]"
  by (simp add: dedupliquer_cases_def trier_par_aire_def aires_cand distance_grand distance_cand)

lemma dedupliquer_trois_englobant:
  "dedupliquer_cases [cand_a, cand_b, cand_englobant] 10 = [cand_englobant]"
  by (simp add: dedupliquer_cases_def trier_par_aire_def aires_cand distance_englobant)

lemma dedupliquer_etroit_large:
  "dedupliquer_cases [cand_etroit, cand_large] 10 = [cand_large, cand_etroit]"
  using distance_etroit_large distance_centres_sym[of cand_etroit cand_large]
  by (simp add: dedupliquer_cases_def trier_par_aire_def aires_cand)

theorem dedupliquer_cases_greedy_witness:
  "distance_centres cand_a cand_b = 5 \<and> case_aire cand_b < case_aire cand_a
   \<and> dedupliquer_cases [cand_a, cand_b] 10 = [cand_a]
   \<and> dedupliquer_cases [cand_b, cand_a] 10 = [cand_a]
   \<and> dedupliquer_boucle 10 ([cand_a] @ [cand_b]) [] = [cand_a]
   \<and> dedupliquer_cases [cand_a, cand_b, cand_grand] 10 = [cand_grand, cand_b]
   \<and> cand_a \<in> set [cand_a, cand_b, cand_grand]
   \<and> cand_a \<notin> set (dedupliquer_cases [cand_a, cand_b, cand_grand] 10)
   \<and> (\<exists>u\<in>set (dedupliquer_cases [cand_a, cand_b, cand_grand] 10).
         case_aire cand_a \<le> case_aire u \<and> distance_centres cand_a u < 10)
   \<and> distance_centres cand_etroit cand_large = 10
   \<and> case_x cand_etroit = case_x cand_large
   \<and> dedupliquer_cases [cand_etroit, cand_large] 10 = [cand_large, cand_etroit]"
proof -
  have ar: "case_aire cand_b < case_aire cand_a" by (simp add: aires_cand)
  have acc: "dedupliquer_boucle 10 [cand_a] [] = [cand_a]" by simp
  have close: "\<not> (10::real) \<le> distance_centres cand_b cand_a"
    using distance_cand distance_centres_sym[of cand_a cand_b] by simp
  note th = dedupliquer_cases_greedy[of "[cand_a, cand_b]" 10 1849 cand_b cand_a "[cand_a]" "[]"
      cand_a cand_b]
  from th distance_cand ar
  have two: "dedupliquer_cases [cand_a, cand_b] 10 = [cand_a]
             \<and> dedupliquer_cases [cand_b, cand_a] 10 = [cand_a]"
    by blast
  from th have "dedupliquer_boucle 10 ([cand_a] @ [cand_b]) [] =
       (if \<forall>u\<in>set (dedupliquer_boucle 10 [cand_a] []). of_int 10 \<le> distance_centres cand_b u
        then dedupliquer_boucle 10 [cand_a] [] @ [cand_b] else dedupliquer_boucle 10 [cand_a] [])"
    by blast
  with acc close have one: "dedupliquer_boucle 10 ([cand_a] @ [cand_b]) [] = [cand_a]"
    by simp
  have ne: "cand_a \<noteq> cand_b" "cand_a \<noteq> cand_grand"
    by (simp_all add: cand_a_def cand_b_def cand_grand_def)
  have mem: "cand_a \<in> set [cand_a, cand_b, cand_grand]" by simp
  have out: "cand_a \<notin> set (dedupliquer_cases [cand_a, cand_b, cand_grand] 10)"
    unfolding dedupliquer_trois_grand using ne by simp
  note th3 = dedupliquer_cases_greedy[of "[cand_a, cand_b, cand_grand]" 10 1849 cand_b cand_a "[]"
      "[]"
      cand_a cand_b]
  from th3 have "cand_a \<in> set [cand_a, cand_b, cand_grand]
        \<and> cand_a \<notin> set (dedupliquer_cases [cand_a, cand_b, cand_grand] 10) \<longrightarrow>
        (\<exists>u\<in>set (dedupliquer_cases [cand_a, cand_b, cand_grand] 10).
            case_aire cand_a \<le> case_aire u \<and> distance_centres cand_a u < of_int 10)"
    by blast
  with mem out
  have cov: "\<exists>u\<in>set (dedupliquer_cases [cand_a, cand_b, cand_grand] 10).
         case_aire cand_a \<le> case_aire u \<and> distance_centres cand_a u < 10"
    by simp
  have x: "case_x cand_etroit = case_x cand_large"
    by (simp add: cand_etroit_def cand_large_def)
  show ?thesis
    using distance_cand ar two one dedupliquer_trois_grand mem out cov distance_etroit_large x
      dedupliquer_etroit_large
    by blast
qed

text \<open>
  The claim as stated, for any two candidates 5 pixels apart in any input, fails. With
  a third, larger candidate at 5 pixels from the larger of the two and at 10 pixels
  from the smaller one, the larger one is dropped and the smaller one survives; with a
  third candidate close to both, neither survives.
\<close>

theorem dedupliquer_cases_larger_counterexample:
  "distance_centres cand_a cand_b = 5 \<and> case_aire cand_b < case_aire cand_a
   \<and> dedupliquer_cases [cand_a, cand_b, cand_grand] 10 = [cand_grand, cand_b]
   \<and> dedupliquer_cases [cand_a, cand_b, cand_englobant] 10 = [cand_englobant]"
  by (simp add: distance_cand aires_cand dedupliquer_trois_grand dedupliquer_trois_englobant)

subsection \<open>Detection\<close>

lemma py_int_bounds:
  "of_int a \<le> r \<Longrightarrow> r \<le> of_int b \<Longrightarrow> a \<le> py_int r \<and> py_int r \<le> b"
  unfolding py_int_def by (auto simp: le_floor_iff floor_le_iff ceiling_le_iff le_ceiling_iff
      intro: order_trans less_le_trans le_less_trans)

lemma arrondi2_bounds:
  assumes "85 / 100 \<le> r" "r \<le> 140 / 100"
  shows "85 / 100 \<le> arrondi2 r \<and> arrondi2 r \<le> 140 / 100"
proof -
  define t where "t = r * 100"
  define f where "f = \<lfloor>t\<rfloor>"
  have t: "85 \<le> t" "t \<le> 140" using assms by (simp_all add: t_def)
  have f: "85 \<le> f" "f \<le> 140" using t by (simp_all add: f_def le_floor_iff floor_le_iff)
  have ft: "of_int f \<le> t" by (simp add: f_def)
  have top: "f = 140 \<Longrightarrow> t - of_int f < 1 / 2" using t ft by simp
  have "(85::real) \<le> of_int f" using f by simp
  moreover have "f \<noteq> 140 \<Longrightarrow> real_of_int f + 1 \<le> 140" using f
    by (metis add.commute int_less_real_le le_less of_int_numeral)
  ultimately show ?thesis
    using top f unfolding arrondi2_def t_def[symmetric] Let_def f_def[symmetric]
    by (cases "f = 140") (auto simp: field_simps)
qed

lemma ratio_min_int:
  fixes w h :: int
  assumes "0 < h"
  shows "(17 \<le> real_of_int w * 20 / real_of_int h) = (17 * h \<le> 20 * w)"
proof -
  have h: "0 < real_of_int h" using assms by simp
  have "(17 \<le> real_of_int w * 20 / real_of_int h) = (17 * real_of_int h \<le> 20 * real_of_int w)"
    using h by (simp add: field_simps)
  also have "\<dots> = (real_of_int (17 * h) \<le> real_of_int (20 * w))" by simp
  also have "\<dots> = (17 * h \<le> 20 * w)" by (rule of_int_le_iff)
  finally show ?thesis .
qed

lemma ratio_max_int:
  fixes w h :: int
  assumes "0 < h"
  shows "(real_of_int w * 5 / real_of_int h \<le> 7) = (5 * w \<le> 7 * h)"
proof -
  have h: "0 < real_of_int h" using assms by simp
  have "(real_of_int w * 5 / real_of_int h \<le> 7) = (5 * real_of_int w \<le> 7 * real_of_int h)"
    using h by (simp add: field_simps)
  also have "\<dots> = (real_of_int (5 * w) \<le> real_of_int (7 * h))" by simp
  also have "\<dots> = (5 * w \<le> 7 * h)" by (rule of_int_le_iff)
  finally show ?thesis .
qed

lemma detecter_cases_defaut_filter:
  "detecter_cases_defaut contours =
     map (\<lambda>cnt. \<lparr>case_x = rect_x cnt, case_y = rect_y cnt, case_w = rect_w cnt,
                 case_h = rect_h cnt, case_aire = py_int (aire_contour cnt),
                 case_ratio = arrondi2 (of_int (rect_w cnt) / of_int (rect_h cnt))\<rparr>)
         (filter (\<lambda>cnt. nb_sommets cnt = 4
                     \<and> 1000 \<le> aire_contour cnt \<and> aire_contour cnt \<le> 2500
                     \<and> 0 < rect_h cnt
                     \<and> 17 * rect_h cnt \<le> 20 * rect_w cnt
                     \<and> 5 * rect_w cnt \<le> 7 * rect_h cnt) contours)"
  unfolding detecter_cases_defaut_def
  by (induction contours) (auto simp: Let_def ratio_min_int ratio_max_int)


text \<open>
  Claim C6, as amended. With the default arguments, detection keeps exactly the contours
  whose polygon approximation has 4 vertices, whose enclosed area (\<open>cv2.contourArea\<close>,
  not the area of the bounding rectangle) lies in [1000, 2500], bounds included, and
  whose bounding rectangle has positive height and a width to height ratio in
  [0.85, 1.4], bounds included; the boxes are returned in contour order, and every
  returned box has an area field in [1000, 2500], positive width and height, and a
  ratio in [0.85, 1.4].
\<close>

theorem detecter_cases_contour_area:
  "detecter_cases_defaut contours =
     map (\<lambda>cnt. \<lparr>case_x = rect_x cnt, case_y = rect_y cnt, case_w = rect_w cnt,
                 case_h = rect_h cnt, case_aire = py_int (aire_contour cnt),
                 case_ratio = arrondi2 (of_int (rect_w cnt) / of_int (rect_h cnt))\<rparr>)
         (filter (\<lambda>cnt. nb_sommets cnt = 4
                     \<and> 1000 \<le> aire_contour cnt \<and> aire_contour cnt \<le> 2500
                     \<and> 0 < rect_h cnt
                     \<and> 17 * rect_h cnt \<le> 20 * rect_w cnt
                     \<and> 5 * rect_w cnt \<le> 7 * rect_h cnt) contours)
   \<and> (\<forall>c\<in>set (detecter_cases_defaut contours).
         1000 \<le> case_aire c \<and> case_aire c \<le> 2500
       \<and> 0 < case_w c \<and> 0 < case_h c
       \<and> 17 * case_h c \<le> 20 * case_w c \<and> 5 * case_w c \<le> 7 * case_h c
       \<and> 0.85 \<le> case_ratio c \<and> case_ratio c \<le> 1.4)"
proof -
  define F where "F = (\<lambda>cnt::contour. \<lparr>case_x = rect_x cnt, case_y = rect_y cnt, case_w = rect_w cnt,
                 case_h = rect_h cnt, case_aire = py_int (aire_contour cnt),
                 case_ratio = arrondi2 (of_int (rect_w cnt) / of_int (rect_h cnt))\<rparr>)"
  define P where "P = (\<lambda>cnt::contour. nb_sommets cnt = 4
                     \<and> 1000 \<le> aire_contour cnt \<and> aire_contour cnt \<le> 2500
                     \<and> 0 < rect_h cnt
                     \<and> 17 * rect_h cnt \<le> 20 * rect_w cnt
                     \<and> 5 * rect_w cnt \<le> 7 * rect_h cnt)"
  have eq: "detecter_cases_defaut contours = map F (filter P contours)"
    unfolding F_def P_def by (rule detecter_cases_defaut_filter)
  have "1000 \<le> case_aire c \<and> case_aire c \<le> 2500
       \<and> 0 < case_w c \<and> 0 < case_h c
       \<and> 17 * case_h c \<le> 20 * case_w c \<and> 5 * case_w c \<le> 7 * case_h c
       \<and> 0.85 \<le> case_ratio c \<and> case_ratio c \<le> 1.4"
    if "c \<in> set (detecter_cases_defaut contours)" for c
  proof -
    from that[unfolded eq] obtain cnt where c: "c = F cnt" and p: "P cnt"
      by auto
    from p have a: "1000 \<le> aire_contour cnt" "aire_contour cnt \<le> 2500"
      and h: "0 < rect_h cnt"
      and r: "17 * rect_h cnt \<le> 20 * rect_w cnt" "5 * rect_w cnt \<le> 7 * rect_h cnt"
      by (simp_all add: P_def)
    have w: "0 < rect_w cnt" using h r by linarith
    have ai: "1000 \<le> py_int (aire_contour cnt) \<and> py_int (aire_contour cnt) \<le> 2500"
      using py_int_bounds[of 1000 "aire_contour cnt" 2500] a by simp
    have "85 / 100 \<le> real_of_int (rect_w cnt) / real_of_int (rect_h cnt)"
      using ratio_min_int[OF h, of "rect_w cnt"] r(1) h by (simp add: field_simps)
    moreover have "real_of_int (rect_w cnt) / real_of_int (rect_h cnt) \<le> 140 / 100"
      using ratio_max_int[OF h, of "rect_w cnt"] r(2) h by (simp add: field_simps)
    ultimately have "85 / 100 \<le> arrondi2 (real_of_int (rect_w cnt) / real_of_int (rect_h cnt))
        \<and> arrondi2 (real_of_int (rect_w cnt) / real_of_int (rect_h cnt)) \<le> 140 / 100"
      by (rule arrondi2_bounds)
    then show ?thesis using ai h w r unfolding c F_def by simp
  qed
  with eq show ?thesis unfolding F_def P_def by blast
qed

lemma detecter_exemple:
  "detecter_cases_defaut [contour_carre_50, contour_triangle, contour_large] =
     [\<lparr>case_x = 0, case_y = 0, case_w = 51, case_h = 51, case_aire = 2500, case_ratio = 1\<rparr>]"
  by (simp add: detecter_cases_defaut_def contour_carre_50_def contour_triangle_def
      contour_large_def py_int_def arrondi2_def)

theorem detecter_cases_contour_area_witness:
  "detecter_cases_defaut [contour_carre_50, contour_triangle, contour_large] =
     [\<lparr>case_x = 0, case_y = 0, case_w = 51, case_h = 51, case_aire = 2500, case_ratio = 1\<rparr>]
   \<and> 1000 \<le> case_aire (hd (detecter_cases_defaut [contour_carre_50, contour_triangle, contour_large]))
   \<and> 0 < case_h (hd (detecter_cases_defaut [contour_carre_50, contour_triangle, contour_large]))"
proof -
  from detecter_cases_contour_area[of "[contour_carre_50, contour_triangle, contour_large]"]
  have "\<forall>c\<in>set (detecter_cases_defaut [contour_carre_50, contour_triangle, contour_large]).
          1000 \<le> case_aire c \<and> 0 < case_h c"
    by blast
  then show ?thesis using detecter_exemple by simp
qed

text \<open>
  The claim as stated, with the area of the bounding rectangle, fails: the square
  contour of side 50 is kept although its bounding rectangle has 51 * 51 = 2601 square
  pixels.
\<close>

theorem detecter_cases_bounding_area_counterexample:
  "detecter_cases_defaut [contour_carre_50] =
     [\<lparr>case_x = 0, case_y = 0, case_w = 51, case_h = 51, case_aire = 2500, case_ratio = 1\<rparr>]
   \<and> nb_sommets contour_carre_50 = 4
   \<and> 2500 < rect_w contour_carre_50 * rect_h contour_carre_50"
  by (simp add: detecter_cases_defaut_def contour_carre_50_def py_int_def arrondi2_def)

subsection \<open>Mark classification\<close>

lemma compter_grosses_filter:
  "compter_grosses t as = length (filter (\<lambda>a. of_int a > t) as)"
  by (induction as) simp_all


lemma py_int_quart:
  "0 \<le> w \<Longrightarrow> py_int (real_of_int w / 4) = w div 4"
proof -
  assume "0 \<le> w"
  have "\<lfloor>real_of_int w / real_of_int 4\<rfloor> = w div 4"
    by (simp only: floor_divide_of_int_eq)
  then show ?thesis using \<open>0 \<le> w\<close> by (simp add: py_int_def)
qed








subsection \<open>Scale edges\<close>

lemma normaliser_bande_pleine: "normaliser sommes_bande_pleine = replicate 41 1"
proof -
  have "set (replicate 41 (10200::nat)) = {10200}" by simp
  then show ?thesis by (simp add: normaliser_def sommes_bande_pleine_def)
qed

lemma moyenne_replicate: "0 < n \<Longrightarrow> moyenne (replicate n c) = c"
  by (simp add: moyenne_def sum_list_replicate)

lemma gauche_bande_pleine:
  "chercher_bord_gauche (replicate 41 1) 0.15 20 = Some 0"
proof -
  have "[0 ..< length (replicate 41 (1::real)) - 20] = 0 # [1 ..< 21]"
    by (simp add: upt_conv_Cons)
  moreover have "moyenne (take 20 (drop 0 (replicate 41 (1::real)))) = 1"
    by (simp add: moyenne_replicate)
  ultimately show ?thesis by (simp add: chercher_bord_gauche_def)
qed

lemma droit_bande_pleine:
  "chercher_bord_droit (replicate 41 1) 0.15 20 = Some 40"
proof -
  have "[Suc 20 ..< Suc 40] = [Suc 20 ..< 40] @ [40]" by simp
  then have "rev [Suc 20 ..< length (replicate 41 (1::real))] = 40 # rev [Suc 20 ..< 40]"
    by simp
  moreover have "moyenne (take 20 (drop (40 - 20) (replicate 41 (1::real)))) = 1"
    by (simp add: moyenne_replicate)
  ultimately show ?thesis by (simp add: chercher_bord_droit_def)
qed

text \<open>
  Claim C8 does not hold of the code. On a band that is dark from column 0 on, the
  left search stops at its first window, at column 0, and the right search finds column
  40; both edges exist, yet the function returns None, because the final test takes
  the left edge 0 for a missing one.
\<close>

theorem trouver_bords_colonne_zero:
  "chercher_bord_gauche (normaliser sommes_bande_pleine) 0.15 20 = Some 0
   \<and> chercher_bord_droit (normaliser sommes_bande_pleine) 0.15 20 = Some 40
   \<and> trouver_bords_ligne_echelle sommes_bande_pleine = Inr None"
proof -
  have ne: "sommes_bande_pleine \<noteq> []" by (simp add: sommes_bande_pleine_def)
  have g: "chercher_bord_gauche (normaliser sommes_bande_pleine) 0.15 20 = Some 0"
    unfolding normaliser_bande_pleine by (rule gauche_bande_pleine)
  have d: "chercher_bord_droit (normaliser sommes_bande_pleine) 0.15 20 = Some 40"
    unfolding normaliser_bande_pleine by (rule droit_bande_pleine)
  have "trouver_bords_ligne_echelle sommes_bande_pleine = Inr None"
    unfolding trouver_bords_ligne_echelle_def Let_def g d using ne
    by (simp add: py_vrai_def)
  with g d show ?thesis by blast
qed

subsection \<open>Scale scoring\<close>

lemma py_index_mem:
  "v \<in> set ds \<Longrightarrow> py_index ds v < length ds \<and> ds ! py_index ds v = v
     \<and> (\<forall>j<py_index ds v. ds ! j \<noteq> v)"
proof (induction ds)
  case Nil
  then show ?case by simp
next
  case (Cons a ds)
  show ?case
  proof (cases "a = v")
    case True
    then show ?thesis by simp
  next
    case False
    with Cons have ih: "py_index ds v < length ds \<and> ds ! py_index ds v = v
        \<and> (\<forall>j<py_index ds v. ds ! j \<noteq> v)" by simp
    show ?thesis using False ih by (auto simp: nth_Cons split: nat.splits)
  qed
qed

lemma py_min_Min:
  assumes "ds \<noteq> []"
  shows "py_min ds = Min (set ds)"
proof (cases ds)
  case Nil
  then show ?thesis using assms by simp
next
  case (Cons a as)
  have "Min (set (a # as)) = fold min as a" by (rule Min.set_eq_fold)
  then show ?thesis using Cons by simp
qed

lemma py_index_min:
  assumes "ds \<noteq> []"
  shows "py_index ds (py_min ds) < length ds"
    and "\<forall>k<length ds. ds ! py_index ds (py_min ds) \<le> ds ! k"
    and "\<forall>j<py_index ds (py_min ds). ds ! py_index ds (py_min ds) < ds ! j"
proof -
  have m: "py_min ds = Min (set ds)" using assms by (rule py_min_Min)
  have mem: "py_min ds \<in> set ds" unfolding m using assms by (simp add: Min_in)
  note p = py_index_mem[OF mem]
  show "py_index ds (py_min ds) < length ds" using p by blast
  have le: "py_min ds \<le> ds ! k" if "k < length ds" for k
    unfolding m using that by (simp add: Min_le)
  show "\<forall>k<length ds. ds ! py_index ds (py_min ds) \<le> ds ! k"
    using p le by simp
  show "\<forall>j<py_index ds (py_min ds). ds ! py_index ds (py_min ds) < ds ! j"
  proof (intro allI impI)
    fix j assume j: "j < py_index ds (py_min ds)"
    then have "j < length ds" using p by linarith
    then have "py_min ds \<le> ds ! j" by (rule le)
    moreover have "ds ! j \<noteq> py_min ds" using p j by blast
    ultimately show "ds ! py_index ds (py_min ds) < ds ! j" using p by simp
  qed
qed

lemma score_proche_nearest:
  "score_proche xg lg cx < 6
   \<and> (\<forall>k<6. \<bar>cx - x_grad xg lg (score_proche xg lg cx)\<bar> \<le> \<bar>cx - x_grad xg lg k\<bar>)
   \<and> (\<forall>j<score_proche xg lg cx.
         \<bar>cx - x_grad xg lg (score_proche xg lg cx)\<bar> < \<bar>cx - x_grad xg lg j\<bar>)"
proof -
  define ds where "ds = map (\<lambda>score. \<bar>cx - x_grad xg lg score\<bar>) [0 ..< 6]"
  have ne: "ds \<noteq> []" and len: "length ds = 6" by (simp_all add: ds_def)
  have sp: "score_proche xg lg cx = py_index ds (py_min ds)"
    by (simp add: score_proche_def ds_def Let_def)
  have nth: "ds ! k = \<bar>cx - x_grad xg lg k\<bar>" if "k < 6" for k
    using that by (simp add: ds_def)
  note p = py_index_min[OF ne]
  have lt: "score_proche xg lg cx < 6" using p(1) len sp by simp
  moreover have "\<forall>k<6. \<bar>cx - x_grad xg lg (score_proche xg lg cx)\<bar> \<le> \<bar>cx - x_grad xg lg k\<bar>"
    using p(2) len sp nth lt by simp
  moreover have "\<forall>j<score_proche xg lg cx.
         \<bar>cx - x_grad xg lg (score_proche xg lg cx)\<bar> < \<bar>cx - x_grad xg lg j\<bar>"
  proof (intro allI impI)
    fix j assume j: "j < score_proche xg lg cx"
    then have j6: "j < 6" using lt by linarith
    from p(3) j sp have "ds ! py_index ds (py_min ds) < ds ! j" by simp
    then show "\<bar>cx - x_grad xg lg (score_proche xg lg cx)\<bar> < \<bar>cx - x_grad xg lg j\<bar>"
      using nth[OF j6] nth[OF lt] sp by simp
  qed
  ultimately show ?thesis by blast
qed


lemma set_associer_graduations:
  "set (associer_graduations xg lg bs acc) = set acc \<union> (\<lambda>b. score_proche xg lg (blob_cx b)) ` set bs"
  by (induction bs arbitrary: acc) (auto simp: Let_def)

lemma distinct_associer_graduations:
  "distinct acc \<Longrightarrow> distinct (associer_graduations xg lg bs acc)"
  by (induction bs arbitrary: acc) (auto simp: Let_def)

lemma crayonnages_filter:
  "filter (\<lambda>b. blob_w b > LARGEUR_MAX_CHIFFRE) (blobs_significatifs stats) =
   map (\<lambda>s. \<lparr>blob_x = cc_left s, blob_y = cc_top s, blob_w = cc_width s, blob_h = cc_height s,
              blob_area = cc_area s, blob_cx = py_int (centroid_x s),
              blob_cy = py_int (centroid_y s)\<rparr>)
       (filter (\<lambda>s. cc_area s > 200 \<and> cc_width s > 45) stats)"
  by (induction stats) (auto simp: AIRE_MIN_BLOB_def LARGEUR_MAX_CHIFFRE_def)

lemma crayonnages_sans_chiffres:
  "filter (\<lambda>b. blob_w b > LARGEUR_MAX_CHIFFRE) (blobs_significatifs (filter (\<lambda>s. cc_width s > 45) stats))
   = filter (\<lambda>b. blob_w b > LARGEUR_MAX_CHIFFRE) (blobs_significatifs stats)"
  by (induction stats) (auto simp: AIRE_MIN_BLOB_def LARGEUR_MAX_CHIFFRE_def)

lemma coter_echelle_unfold:
  "coter_echelle (Some e) stats =
     sort (associer_graduations (x_gauche_crop_de e) (largeur_graduation_de e)
             (filter (\<lambda>b. blob_w b > LARGEUR_MAX_CHIFFRE) (blobs_significatifs stats)) [])"
  by (simp add: coter_echelle_def Let_def x_gauche_crop_de_def largeur_graduation_de_def)

lemma set_coter_echelle:
  "set (coter_echelle (Some e) stats) =
     score_de e ` {s \<in> set stats. cc_area s > 200 \<and> cc_width s > 45}"
  unfolding coter_echelle_unfold crayonnages_filter
  by (auto simp: set_associer_graduations score_de_def image_iff)

lemma distinct_singleton:
  "distinct xs \<Longrightarrow> set xs = {a} \<Longrightarrow> xs = [a]"
proof (cases xs)
  case Nil
  assume "set xs = {a}" with Nil show ?thesis by simp
next
  case (Cons b bs)
  assume d: "distinct xs" and s: "set xs = {a}"
  from s Cons have b: "b = a" by auto
  from d s Cons b have "set bs \<subseteq> {a}" "a \<notin> set bs" by auto
  then have "bs = []" by (cases bs) auto
  with Cons b show ?thesis by simp
qed

lemma py_int_graduation:
  "0 \<le> W \<Longrightarrow> py_int (real k * (real_of_int W / 5)) = (int k * W) div 5"
proof -
  assume W: "0 \<le> W"
  have "real k * (real_of_int W / 5) = real_of_int (int k * W) / real_of_int 5" by simp
  then have "\<lfloor>real k * (real_of_int W / 5)\<rfloor> = (int k * W) div 5"
    by (simp only: floor_divide_of_int_eq)
  moreover have "0 \<le> real k * (real_of_int W / 5)" using W by simp
  ultimately show ?thesis by (simp only: py_int_def if_True)
qed

lemma py_index_min_quatrieme:
  fixes a b c e f :: int
  assumes "0 < a" "0 < b" "0 < c" "0 \<le> e" "0 \<le> f"
  shows "py_index [a, b, c, 0, e, f] (py_min [a, b, c, 0, e, f]) = 3"
proof -
  have "py_min [a, b, c, 0, e, f] = 0" using assms by (simp add: min_def)
  then show ?thesis using assms by simp
qed

lemma graduation_3_first:
  assumes "5 \<le> pt_x (droite e) - pt_x (gauche e)"
  shows "score_proche (x_gauche_crop_de e) (largeur_graduation_de e) (position_graduation e 3) = 3"
proof -
  define W where "W = pt_x (droite e) - pt_x (gauche e)"
  define xg where "xg = x_gauche_crop_de e"
  define lg where "lg = largeur_graduation_de e"
  define p where "p = x_grad xg lg 3"
  have W: "5 \<le> W" using assms by (simp add: W_def)
  have g: "x_grad xg lg k = xg + (int k * W) div 5" for k
    using W py_int_graduation[of W k]
    by (simp add: x_grad_def lg_def largeur_graduation_de_def W_def[symmetric])
  have d: "(0 * W) div 5 < (3 * W) div 5" "(1 * W) div 5 < (3 * W) div 5"
      "(2 * W) div 5 < (3 * W) div 5"
    using W by presburger+
  have up: "[0 ..< 6] = [0, 1, 2, 3, 4, 5::nat]"
    by (simp add: upt_rec)
  have a0: "0 < \<bar>p - x_grad xg lg 0\<bar>" using d(1) by (simp add: p_def g)
  have a1: "0 < \<bar>p - x_grad xg lg 1\<bar>" using d(2) by (simp add: p_def g)
  have a2: "0 < \<bar>p - x_grad xg lg 2\<bar>" using d(3) by (simp add: p_def g)
  have a3: "\<bar>p - x_grad xg lg 3\<bar> = 0" by (simp add: p_def)
  have ds: "map (\<lambda>score. \<bar>p - x_grad xg lg score\<bar>) [0 ..< 6] =
      [\<bar>p - x_grad xg lg 0\<bar>, \<bar>p - x_grad xg lg 1\<bar>, \<bar>p - x_grad xg lg 2\<bar>, 0,
       \<bar>p - x_grad xg lg 4\<bar>, \<bar>p - x_grad xg lg 5\<bar>]"
    unfolding up using a3 by simp
  have "score_proche xg lg p = 3"
    unfolding score_proche_def Let_def ds
    by (rule py_index_min_quatrieme[OF a0 a1 a2]) simp_all
  then show ?thesis
    by (simp add: p_def xg_def lg_def position_graduation_def)
qed


text \<open>
  Claim C3. Without a scale there is no score. With a scale, the components of width at
  most 45 never count, wherever they are: removing them leaves the result unchanged.
  The result is the set of scores of the components of area above 200 and width above
  45, as a sorted list without repetition of indices below 6. The score of a component
  is the graduation nearest to its (truncated) centroid x among the six positions
  spaced a fifth of the scale width apart, the lowest index on a tie. On a scale at
  least 5 pixels wide, when the pencil marks (there is one at least) are all centred
  exactly on graduation 3, the result is [3].
\<close>

theorem coter_echelle_scores:
  "coter_echelle None stats = []
   \<and> coter_echelle (Some e) stats = coter_echelle (Some e) (filter (\<lambda>s. cc_width s > 45) stats)
   \<and> set (coter_echelle (Some e) stats) =
       score_de e ` {s \<in> set stats. cc_area s > 200 \<and> cc_width s > 45}
   \<and> sorted (coter_echelle (Some e) stats) \<and> distinct (coter_echelle (Some e) stats)
   \<and> (\<forall>k\<in>set (coter_echelle (Some e) stats). k < 6)
   \<and> score_de e s < 6
   \<and> (\<forall>k<6. \<bar>py_int (centroid_x s) - position_graduation e (score_de e s)\<bar>
               \<le> \<bar>py_int (centroid_x s) - position_graduation e k\<bar>)
   \<and> (\<forall>j<score_de e s. \<bar>py_int (centroid_x s) - position_graduation e (score_de e s)\<bar>
               < \<bar>py_int (centroid_x s) - position_graduation e j\<bar>)
   \<and> (5 \<le> pt_x (droite e) - pt_x (gauche e)
        \<and> (\<exists>c\<in>set stats. cc_area c > 200 \<and> cc_width c > 45)
        \<and> (\<forall>c\<in>set stats. cc_area c > 200 \<and> cc_width c > 45
                \<longrightarrow> py_int (centroid_x c) = position_graduation e 3)
        \<longrightarrow> coter_echelle (Some e) stats = [3])"
proof -
  have A: "coter_echelle None stats = []" by (simp add: coter_echelle_def)
  have B: "coter_echelle (Some e) stats
           = coter_echelle (Some e) (filter (\<lambda>s. cc_width s > 45) stats)"
    unfolding coter_echelle_unfold crayonnages_sans_chiffres by (rule refl)
  note C = set_coter_echelle[of e stats]
  have D: "sorted (coter_echelle (Some e) stats)"
    unfolding coter_echelle_unfold by simp
  have E: "distinct (coter_echelle (Some e) stats)"
    unfolding coter_echelle_unfold by (simp add: distinct_associer_graduations)
  note N = score_proche_nearest[of "x_gauche_crop_de e" "largeur_graduation_de e"]
  have F: "\<forall>k\<in>set (coter_echelle (Some e) stats). k < 6"
    unfolding C score_de_def using N by blast
  have G: "score_de e s < 6"
    unfolding score_de_def using N by blast
  have H: "\<forall>k<6. \<bar>py_int (centroid_x s) - position_graduation e (score_de e s)\<bar>
               \<le> \<bar>py_int (centroid_x s) - position_graduation e k\<bar>"
    unfolding score_de_def position_graduation_def using N by blast
  have I: "\<forall>j<score_de e s. \<bar>py_int (centroid_x s) - position_graduation e (score_de e s)\<bar>
               < \<bar>py_int (centroid_x s) - position_graduation e j\<bar>"
    unfolding score_de_def position_graduation_def using N by blast
  have J: "coter_echelle (Some e) stats = [3]"
    if w: "5 \<le> pt_x (droite e) - pt_x (gauche e)"
      and ex: "\<exists>c\<in>set stats. cc_area c > 200 \<and> cc_width c > 45"
      and all: "\<forall>c\<in>set stats. cc_area c > 200 \<and> cc_width c > 45
                \<longrightarrow> py_int (centroid_x c) = position_graduation e 3"
  proof -
    have "score_de e c = 3" if "c \<in> set stats" "cc_area c > 200" "cc_width c > 45" for c
      using that all graduation_3_first[OF w] by (simp add: score_de_def)
    with ex have "score_de e ` {s \<in> set stats. cc_area s > 200 \<and> cc_width s > 45} = {3}"
      by auto
    with C have "set (coter_echelle (Some e) stats) = {3}" by simp
    with E show ?thesis by (rule distinct_singleton)
  qed
  from A B C D E F G H I J show ?thesis by blast
qed

lemma position_ex: "position_graduation echelle_ex 3 = 850"
  by (simp add: position_graduation_def x_grad_def x_gauche_crop_de_def largeur_graduation_de_def
      echelle_ex_def MARGE_CROP_def py_int_def)

theorem coter_echelle_scores_witness:
  "5 \<le> pt_x (droite echelle_ex) - pt_x (gauche echelle_ex)
   \<and> cc_area comp_crayon > 200 \<and> cc_width comp_crayon > 45
   \<and> cc_width comp_chiffre \<le> 45 \<and> cc_area comp_poussiere \<le> 200
   \<and> py_int (centroid_x comp_crayon) = position_graduation echelle_ex 3
   \<and> coter_echelle (Some echelle_ex) [comp_chiffre, comp_crayon, comp_poussiere] = [3]"
proof -
  have 1: "5 \<le> pt_x (droite echelle_ex) - pt_x (gauche echelle_ex)"
    by (simp add: echelle_ex_def)
  have 2: "cc_area comp_crayon > 200 \<and> cc_width comp_crayon > 45"
    by (simp add: comp_crayon_def)
  have 3: "cc_width comp_chiffre \<le> 45 \<and> cc_area comp_poussiere \<le> 200"
    by (simp add: comp_chiffre_def comp_poussiere_def)
  have 4: "py_int (centroid_x comp_crayon) = position_graduation echelle_ex 3"
    unfolding position_ex by (simp add: comp_crayon_def py_int_def)
  have ex: "\<exists>c\<in>set [comp_chiffre, comp_crayon, comp_poussiere]. cc_area c > 200 \<and> cc_width c > 45"
    using 2 by simp
  have all: "\<forall>c\<in>set [comp_chiffre, comp_crayon, comp_poussiere]. cc_area c > 200 \<and> cc_width c > 45
                \<longrightarrow> py_int (centroid_x c) = position_graduation echelle_ex 3"
    using 3 4 by auto
  from coter_echelle_scores[of "[comp_chiffre, comp_crayon, comp_poussiere]" echelle_ex comp_crayon]
    1 ex all
  have "coter_echelle (Some echelle_ex) [comp_chiffre, comp_crayon, comp_poussiere] = [3]"
    by blast
  with 1 2 3 4 show ?thesis by blast
qed

subsection \<open>Width of a detected scale\<close>

text \<open>
  Whenever the scale is found, its left edge is past column 0 and its right edge is at
  least 20 columns further: the window that sets the left edge is also a window of the
  right search. A scale that reaches \<open>coter_echelle\<close> from the page analysis is
  therefore at least 20 pixels wide.
\<close>

lemma find_upt_Some:
  "find P [0 ..< n] = Some a \<Longrightarrow> a < n \<and> P a"
  by (auto simp: find_Some_iff)

lemma find_rev_upt_greatest:
  "find P (rev [m ..< n]) = Some d \<Longrightarrow> m \<le> x \<Longrightarrow> x < n \<Longrightarrow> P x \<Longrightarrow> x \<le> d"
proof (induction n)
  case 0
  then show ?case by simp
next
  case (Suc n)
  show ?case
  proof (cases "m \<le> n")
    case False
    then show ?thesis using Suc.prems by simp
  next
    case True
    then have r: "rev [m ..< Suc n] = n # rev [m ..< n]" by simp
    show ?thesis
    proof (cases "P n")
      case True
      then show ?thesis using Suc.prems r by simp
    next
      case False
      then have "find P (rev [m ..< n]) = Some d" using Suc.prems(1) r by simp
      moreover have "x < n" using Suc.prems(3,4) False by (cases "x = n") auto
      ultimately show ?thesis using Suc.IH Suc.prems(2,4) by blast
    qed
  qed
qed

lemma trouver_bords_largeur:
  assumes "trouver_bords_ligne_echelle sommes = Inr (Some (g, d))"
  shows "0 < g \<and> g + 20 \<le> d"
proof -
  define proj where "proj = normaliser sommes"
  define xg where "xg = chercher_bord_gauche proj 0.15 20"
  define xd where "xd = chercher_bord_droit proj 0.15 20"
  from assms have v: "py_vrai xg" "py_vrai xd" and gd: "g = int (the xg)" "d = int (the xd)"
    by (auto simp: trouver_bords_ligne_echelle_def Let_def proj_def xg_def xd_def
        split: if_splits)
  from v obtain a b where ab: "xg = Some a" "xd = Some b" "a \<noteq> 0"
    by (auto simp: py_vrai_def split: option.splits)
  from ab(1) have la: "a < length proj - 20"
      and pa: "moyenne (take 20 (drop a proj)) > 0.15"
    using find_upt_Some[of "\<lambda>x. moyenne (take 20 (drop x proj)) > 0.15" "length proj - 20" a]
    by (simp_all add: xg_def chercher_bord_gauche_def)
  have "a + 20 \<le> b"
  proof (rule find_rev_upt_greatest[of "\<lambda>x. moyenne (take 20 (drop (x - 20) proj)) > 0.15"
        "Suc 20" "length proj" b "a + 20"])
    show "find (\<lambda>x. moyenne (take 20 (drop (x - 20) proj)) > 0.15) (rev [Suc 20 ..< length proj]) = Some b"
      using ab(2) by (simp add: xd_def chercher_bord_droit_def)
    show "Suc 20 \<le> a + 20" using ab(3) by simp
    show "a + 20 < length proj" using la by simp
    show "moyenne (take 20 (drop (a + 20 - 20) proj)) > 0.15" using pa by simp
  qed
  then show ?thesis using gd ab by simp
qed

lemma detecter_echelle_seule_largeur:
  assumes "detecter_echelle_seule img = Inr (Some e)"
  shows "0 < pt_x (gauche e) \<and> pt_x (gauche e) + 20 \<le> pt_x (droite e)"
proof -
  from assms obtain x1 ye x2 y2 g d where
    "trouver_bords_ligne_echelle (obs_sommes img ye) = Inr (Some (g, d))"
    "e = \<lparr>gauche = \<lparr>pt_x = g, pt_y = ye\<rparr>, droite = \<lparr>pt_x = d, pt_y = ye\<rparr>\<rparr>"
    by (auto simp: detecter_echelle_seule_def split: option.splits sum.splits prod.splits)
  then show ?thesis using trouver_bords_largeur by auto
qed

subsection \<open>The example page\<close>

lemma find_upt_first:
  "a < n \<Longrightarrow> P a \<Longrightarrow> (\<forall>j<a. \<not> P j) \<Longrightarrow> find P [0 ..< n] = Some a"
  by (auto simp: find_Some_iff intro!: exI[of _ a])

lemma find_rev_upt_last: "m \<le> n \<Longrightarrow> P n \<Longrightarrow> find P (rev [m ..< Suc n]) = Some n"
  by simp

lemma echelle_page_ex:
  "trouver_bords_ligne_echelle (replicate 20 0 @ replicate 1380 10200) = Inr (Some (4, 1399))"
proof -
  define proj :: "real list" where "proj = replicate 20 0 @ replicate 1380 1"
  have n: "normaliser (replicate 20 0 @ replicate 1380 10200) = proj"
  proof -
    have "set (replicate 20 (0::nat) @ replicate 1380 10200) = {0, 10200}" by auto
    then show ?thesis by (simp add: normaliser_def proj_def)
  qed
  have w: "moyenne (take 20 (drop 0 proj)) = 0" "moyenne (take 20 (drop 1 proj)) = 1 / 20"
    "moyenne (take 20 (drop 2 proj)) = 2 / 20" "moyenne (take 20 (drop 3 proj)) = 3 / 20"
    "moyenne (take 20 (drop 4 proj)) = 4 / 20"
    by (simp_all add: proj_def moyenne_def sum_list_replicate)
  have g: "chercher_bord_gauche proj 0.15 20 = Some 4"
  proof -
    have "\<not> moyenne (take 20 (drop j proj)) > 0.15" if "j < 4" for j
    proof -
      from that have "j = 0 \<or> j = 1 \<or> j = 2 \<or> j = 3" by arith
      then show ?thesis using w by auto
    qed
    moreover have "moyenne (take 20 (drop 4 proj)) > 0.15" using w by simp
    moreover have "4 < length proj - 20" by (simp add: proj_def)
    ultimately show ?thesis
      unfolding chercher_bord_gauche_def
      by (intro find_upt_first[where P = "\<lambda>x. moyenne (take 20 (drop x proj)) > 0.15"]) auto
  qed
  have d: "chercher_bord_droit proj 0.15 20 = Some 1399"
  proof -
    have len: "length proj = Suc 1399" by (simp add: proj_def)
    have "moyenne (take 20 (drop (1399 - 20) proj)) = 1"
      by (simp add: proj_def moyenne_def sum_list_replicate)
    then have p: "moyenne (take 20 (drop (1399 - 20) proj)) > 0.15" by simp
    show ?thesis
      unfolding chercher_bord_droit_def len
      using p
      by (intro find_rev_upt_last[where P = "\<lambda>x. moyenne (take 20 (drop (x - 20) proj)) > 0.15"])
        simp_all
  qed
  have ne: "replicate 20 (0::nat) @ replicate 1380 10200 \<noteq> []" by simp
  show ?thesis
    unfolding trouver_bords_ligne_echelle_def Let_def n g d using ne
    by (simp add: py_vrai_def)
qed

lemma detecter_echelle_page_ex:
  "detecter_echelle_seule page_ex =
     Inr (Some \<lparr>gauche = \<lparr>pt_x = 4, pt_y = 2000\<rparr>, droite = \<lparr>pt_x = 1399, pt_y = 2000\<rparr>\<rparr>)"
  by (simp add: detecter_echelle_seule_def page_ex_def echelle_page_ex)

lemma detecter_echelle_sans: "detecter_echelle_seule page_sans_echelle = Inr None"
  by (simp add: detecter_echelle_seule_def page_sans_echelle_def)


lemma distance_centres_lt_iff:
  "0 < d \<Longrightarrow> distance_centres c u < d \<longleftrightarrow>
     (centre_x c - centre_x u)\<^sup>2 + (centre_y c - centre_y u)\<^sup>2 < d\<^sup>2"
proof -
  assume d: "0 < d"
  have "sqrt (d\<^sup>2) = d" using d by simp
  then have "distance_centres c u < d \<longleftrightarrow>
      sqrt ((centre_x c - centre_x u)\<^sup>2 + (centre_y c - centre_y u)\<^sup>2) < sqrt (d\<^sup>2)"
    by (simp add: distance_centres_def)
  then show ?thesis by (simp only: real_sqrt_less_iff)
qed

lemma detecter_page_ex:
  "detecter_cases_defaut (obs_contours page_ex) =
     [case_ex 503 1000, (case_ex 505 1002)\<lparr>case_w := 41, case_h := 41, case_aire := 1600\<rparr>,
      case_ex 103 1001, (case_ex 105 1003)\<lparr>case_w := 41, case_h := 41, case_aire := 1600\<rparr>,
      case_ex 303 1000, (case_ex 305 1002)\<lparr>case_w := 41, case_h := 41, case_aire := 1600\<rparr>,
      case_ex 703 999, (case_ex 705 1001)\<lparr>case_w := 41, case_h := 41, case_aire := 1600\<rparr>]"
  by (simp add: detecter_cases_defaut_def page_ex_def box_contour_def box_contour_interieur_def
      case_ex_def py_int_def arrondi2_def)

lemma dedupliquer_page_ex:
  "dedupliquer_cases (detecter_cases_defaut (obs_contours page_ex)) 10 =
     [case_ex 503 1000, case_ex 103 1001, case_ex 303 1000, case_ex 703 999]"
  unfolding detecter_page_ex
  by (simp add: dedupliquer_cases_def trier_par_aire_def case_ex_def
      distance_centres_lt_iff centre_x_def centre_y_def power2_eq_square)

lemma completes_page_ex:
  "detecter_cases_completes (obs_contours page_ex) =
     [case_ex 703 999, case_ex 303 1000, case_ex 503 1000, case_ex 103 1001]"
  unfolding detecter_cases_completes_def dedupliquer_page_ex
  by (simp add: trier_yx_def case_ex_def less_eq_prod_def)

lemma py_tranche_segment:
  assumes "int (length xs) \<le> a" "a \<le> b" "b \<le> int (length xs) + int n"
  shows "py_tranche (xs @ replicate n v @ zs) a b = replicate (nat (b - a)) v"
proof -
  have a0: "0 \<le> a" using assms(1) by linarith
  have a: "py_borne (length (xs @ replicate n v @ zs)) a = nat a"
    using assms a0 by (simp add: py_borne_def)
  have b: "py_borne (length (xs @ replicate n v @ zs)) b = nat b"
    using assms a0 by (simp add: py_borne_def)
  have la: "length xs \<le> nat a" using assms(1) by linarith
  have d: "drop (nat a) (xs @ replicate n v @ zs)
           = replicate (n - (nat a - length xs)) v @ drop (nat a - length xs - n) zs"
    using la by simp
  have k: "nat b - nat a = nat (b - a)" using assms a0 by linarith
  have le: "nat (b - a) \<le> n - (nat a - length xs)" using assms a0 by linarith
  show ?thesis
    unfolding py_tranche_def Let_def a b d k using le by (simp add: min_def)
qed

lemma interieur_bloc:
  assumes img: "img = haut @ replicate n ligne @ bas"
    and ligne: "ligne = g @ replicate m v @ dr"
    and pos: "0 < case_w c" "0 < case_h c"
    and rows: "int (length haut) \<le> case_y c + case_h c div 4"
      "case_y c + case_h c - case_h c div 4 \<le> int (length haut) + int n"
    and cols: "int (length g) \<le> case_x c + case_w c div 4"
      "case_x c + case_w c - case_w c div 4 \<le> int (length g) + int m"
  shows "interieur img c =
           replicate (nat (case_h c - 2 * (case_h c div 4)))
                     (replicate (nat (case_w c - 2 * (case_w c div 4))) v)"
proof -
  define mx where "mx = case_w c div 4"
  define my where "my = case_h c div 4"
  have mx: "py_int (real_of_int (case_w c) * 0.25) = mx"
    using py_int_quart[of "case_w c"] pos(1) by (simp add: mx_def)
  have my: "py_int (real_of_int (case_h c) * 0.25) = my"
    using py_int_quart[of "case_h c"] pos(2) by (simp add: my_def)
  have bx: "0 \<le> mx" "2 * mx \<le> case_w c" using pos(1) by (simp_all add: mx_def)
  have by': "0 \<le> my" "2 * my \<le> case_h c" using pos(2) by (simp_all add: my_def)
  have r: "py_tranche (haut @ replicate n ligne @ bas) (case_y c + my)
                (case_y c + my + (case_h c - 2 * my))
              = replicate (nat (case_y c + my + (case_h c - 2 * my) - (case_y c + my))) ligne"
    using rows by' by (intro py_tranche_segment) (simp_all add: my_def)
  have cl: "py_tranche (g @ replicate m v @ dr) (case_x c + mx)
                (case_x c + mx + (case_w c - 2 * mx))
              = replicate (nat (case_x c + mx + (case_w c - 2 * mx) - (case_x c + mx))) v"
    using cols bx by (intro py_tranche_segment) (simp_all add: mx_def)
  show ?thesis
    unfolding interieur_def Let_def mx my img r map_replicate
    unfolding ligne cl
    by (simp add: mx_def my_def)
qed

lemma concat_replicate_ne: "0 < n \<Longrightarrow> xs \<noteq> [] \<Longrightarrow> concat (replicate n xs) \<noteq> []"
  by (cases n) simp_all

lemma analyser_case_interieur_blanc:
  assumes roi: "interieur img c = replicate hh (replicate ww 255)"
    and pos: "0 < hh" "0 < ww" and aire: "aire_interieur c \<noteq> 0"
  shows "analyser_case cc_un_bloc img c = Inr (Vide, Aucune)"
proof -
  have ne: "concat (replicate hh (replicate ww (255::nat))) \<noteq> []"
    using pos by (intro concat_replicate_ne) simp_all
  have bin: "seuil_binaire_inv 180 (replicate hh (replicate ww 255)) = replicate hh (replicate ww 0)"
    by (simp add: seuil_binaire_inv_def)
  have cnt: "count_nonzero (replicate hh (replicate ww 0)) = 0"
    by (simp add: count_nonzero_def sum_list_replicate)
  show ?thesis
    unfolding analyser_case_def Let_def roi bin cnt
    using ne aire
    by (simp add: cc_un_bloc_def cnt SEUIL_REMPLISSAGE_def MIN_COMPOSANTES_def)
qed

lemma analyser_case_interieur_noir:
  assumes roi: "interieur img c = replicate hh (replicate ww 0)"
    and pos: "0 < hh" "0 < ww" and aire: "aire_interieur c = int (hh * ww)"
  shows "analyser_case cc img c = Inr (Noire, RatioNoir 1)"
proof -
  have ne: "concat (replicate hh (replicate ww (0::nat))) \<noteq> []"
    using pos by (intro concat_replicate_ne) simp_all
  have bin: "seuil_binaire_inv 180 (replicate hh (replicate ww 0)) = replicate hh (replicate ww 255)"
    by (simp add: seuil_binaire_inv_def)
  have cnt: "count_nonzero (replicate hh (replicate ww 255)) = hh * ww"
    by (simp add: count_nonzero_def sum_list_replicate)
  have nz: "hh * ww \<noteq> 0" using pos by simp
  have ratio: "real (hh * ww) / real_of_int (int (hh * ww)) = 1" using nz by simp
  show ?thesis
    unfolding analyser_case_def Let_def roi bin cnt aire ratio
    using ne nz
    by (simp add: SEUIL_REMPLISSAGE_def)
qed

lemma aire_interieur_ex: "aire_interieur (case_ex xx yy) = 529"
  using py_int_quart[of 45] by (simp add: aire_interieur_def Let_def case_ex_def)

lemma interieur_page_ex:
  "interieur gris_ex (case_ex 703 999) = replicate 23 (replicate 23 255)"
  "interieur gris_ex (case_ex 503 1000) = replicate 23 (replicate 23 255)"
  "interieur gris_ex (case_ex 103 1001) = replicate 23 (replicate 23 255)"
  "interieur gris_ex (case_ex 303 1000) = replicate 23 (replicate 23 0)"
proof -
  have d: "nat (45 - 2 * (45 div 4)) = 23" by simp
  have droite: "ligne_encree = (replicate 308 255 @ replicate 35 0) @ replicate 1057 255 @ []"
    by (simp add: ligne_encree_def)
  have gauche: "ligne_encree = [] @ replicate 308 255 @ (replicate 35 0 @ replicate 1057 255)"
    by (simp add: ligne_encree_def)
  have milieu: "ligne_encree = replicate 308 255 @ replicate 35 0 @ replicate 1057 255"
    by (simp add: ligne_encree_def)
  show "interieur gris_ex (case_ex 703 999) = replicate 23 (replicate 23 255)"
    using interieur_bloc[OF gris_ex_def droite, of "case_ex 703 999"]
    by (simp add: case_ex_def)
  show "interieur gris_ex (case_ex 503 1000) = replicate 23 (replicate 23 255)"
    using interieur_bloc[OF gris_ex_def droite, of "case_ex 503 1000"]
    by (simp add: case_ex_def)
  show "interieur gris_ex (case_ex 103 1001) = replicate 23 (replicate 23 255)"
    using interieur_bloc[OF gris_ex_def gauche, of "case_ex 103 1001"]
    by (simp add: case_ex_def)
  show "interieur gris_ex (case_ex 303 1000) = replicate 23 (replicate 23 0)"
    using interieur_bloc[OF gris_ex_def milieu, of "case_ex 303 1000"]
    by (simp add: case_ex_def)
qed

lemma analyser_case_page_ex:
  "analyser_case cc_un_bloc gris_ex (case_ex 703 999) = Inr (Vide, Aucune)"
  "analyser_case cc_un_bloc gris_ex (case_ex 503 1000) = Inr (Vide, Aucune)"
  "analyser_case cc_un_bloc gris_ex (case_ex 103 1001) = Inr (Vide, Aucune)"
  "analyser_case cc_un_bloc gris_ex (case_ex 303 1000) = Inr (Noire, RatioNoir 1)"
proof -
  show "analyser_case cc_un_bloc gris_ex (case_ex 703 999) = Inr (Vide, Aucune)"
    by (rule analyser_case_interieur_blanc[OF interieur_page_ex(1)])
       (simp_all add: aire_interieur_ex)
  show "analyser_case cc_un_bloc gris_ex (case_ex 503 1000) = Inr (Vide, Aucune)"
    by (rule analyser_case_interieur_blanc[OF interieur_page_ex(2)])
       (simp_all add: aire_interieur_ex)
  show "analyser_case cc_un_bloc gris_ex (case_ex 103 1001) = Inr (Vide, Aucune)"
    by (rule analyser_case_interieur_blanc[OF interieur_page_ex(3)])
       (simp_all add: aire_interieur_ex)
  show "analyser_case cc_un_bloc gris_ex (case_ex 303 1000) = Inr (Noire, RatioNoir 1)"
    by (rule analyser_case_interieur_noir[OF interieur_page_ex(4)])
       (simp_all add: aire_interieur_ex)
qed

lemma classer_page_ex:
  "classer_cases cc_un_bloc (obs_gris page_ex)
          (detecter_cases_completes (obs_contours page_ex)) ([], [], [])
        = Inr ([case_ex 703 999, case_ex 503 1000, case_ex 103 1001],
               [(case_ex 303 1000, RatioNoir 1)], [])"
proof -
  have g: "obs_gris page_ex = gris_ex" by (simp add: page_ex_def)
  show ?thesis unfolding completes_page_ex g by (simp add: analyser_case_page_ex)
qed

lemma lignes_vides_page_ex:
  "lignes_vides_page cc_un_bloc page_ex =
     Inr [[case_ex 103 1001, case_ex 503 1000, case_ex 703 999]]"
proof -
  have "regrouper_par_lignes [case_ex 703 999, case_ex 503 1000, case_ex 103 1001] 50
        = [[case_ex 103 1001, case_ex 503 1000, case_ex 703 999]]"
    by (simp add: regrouper_par_lignes_def trier_yx_def case_ex_def less_eq_prod_def)
  then show ?thesis by (simp add: lignes_vides_page_def classer_page_ex)
qed

lemma q_id_1: "q_id 1 = ''question_1''"
  by (simp add: q_id_def str_nat.simps[of "Suc 0"])

lemma trouve_ex:
  "trouve [case_ex 103 1001, case_ex 503 1000, case_ex 703 999] (tmpl_x (tmpl_box xx) + 3)
     = (\<bar>100 - xx\<bar> < 200 \<or> \<bar>500 - xx\<bar> < 200 \<or> \<bar>700 - xx\<bar> < 200)"
  by (auto simp: case_ex_def tmpl_box_def TOLERANCE_X_def)

lemma reponses_ex:
  "reponses_ordonnees [case_ex 103 1001, case_ex 503 1000, case_ex 703 999]
      [tmpl_box 100, tmpl_box 300, tmpl_box 500, tmpl_box 700] 3 =
   [rep_vide 0 103 1001,
    \<lparr>rep_index = 1, rep_reponse = Cochee, rep_x = 303, rep_y = 1000, rep_w = 45, rep_h = 45\<rparr>,
    rep_vide 2 503 1000, rep_vide 3 703 999]"
proof -
  have up: "[0 ..< 4] = [0, 1, 2, 3::nat]" by (simp add: upt_rec)
  have y: "calculer_y_ligne [case_ex 103 1001, case_ex 503 1000, case_ex 703 999]
      [tmpl_box 100, tmpl_box 300, tmpl_box 500, tmpl_box 700] = 1000"
    by (simp add: calculer_y_ligne_def case_ex_def py_int_def)
  have m: "trouver_cases_template_manquantes [case_ex 103 1001, case_ex 503 1000, case_ex 703 999]
      [tmpl_box 100, tmpl_box 300, tmpl_box 500, tmpl_box 700] 3 = [1]"
    by (simp add: trouver_cases_template_manquantes_def enumerate_eq_zip up case_ex_def
        tmpl_box_def TOLERANCE_X_def)
  show ?thesis
    unfolding reponses_ordonnees_def Let_def y m
    by (simp add: up reponse_pour_def case_ex_def tmpl_box_def TOLERANCE_X_def rep_vide_def)
qed

lemma coter_page_ex:
  "coter_echelle (Some \<lparr>gauche = \<lparr>pt_x = 4, pt_y = 2000\<rparr>, droite = \<lparr>pt_x = 1399, pt_y = 2000\<rparr>\<rparr>)
     [comp_chiffre, comp_crayon, comp_poussiere] = [3]"
proof -
  have up: "[0 ..< 6] = [0, 1, 2, 3, 4, 5::nat]" by (simp add: upt_rec)
  have s: "score_proche 4 279 850 = 3"
    unfolding score_proche_def Let_def up by (simp add: x_grad_def py_int_def)
  show ?thesis
    by (simp add: coter_echelle_def Let_def comp_chiffre_def comp_crayon_def comp_poussiere_def
        AIRE_MIN_BLOB_def LARGEUR_MAX_CHIFFRE_def MARGE_CROP_def py_int_def s)
qed

lemma questions_page_ex:
  "analyser_questions [[case_ex 103 1001, case_ex 503 1000, case_ex 703 999]]
      (tp_contenu template_ex) 3 =
   [(''question_1'',
     [rep_vide 0 103 1001,
      \<lparr>rep_index = 1, rep_reponse = Cochee, rep_x = 303, rep_y = 1000, rep_w = 45, rep_h = 45\<rparr>,
      rep_vide 2 503 1000, rep_vide 3 703 999])]"
proof -
  have up: "[1 ..< Suc 1] = [1::nat]" by simp
  show ?thesis
    using q_id_1
    by (simp add: analyser_questions_def Let_def template_ex_def up List.map_filter_simps
        reponses_ex)
qed

lemma analyser_page_ex:
  "analyser_page cc_un_bloc page_ex n template_ex =
     Inr (PageAnalysee n 3 [3]
       [(''question_1'',
         [rep_vide 0 103 1001,
          \<lparr>rep_index = 1, rep_reponse = Cochee, rep_x = 303, rep_y = 1000, rep_w = 45, rep_h = 45\<rparr>,
          rep_vide 2 503 1000, rep_vide 3 703 999])])"
proof -
  have dx: "calculer_dx (tp_echelle template_ex)
      (Some \<lparr>gauche = \<lparr>pt_x = 4, pt_y = 2000\<rparr>, droite = \<lparr>pt_x = 1399, pt_y = 2000\<rparr>\<rparr>) = 3"
    by (simp add: calculer_dx_def template_ex_def)
  have oc: "obs_composantes page_ex e = [comp_chiffre, comp_crayon, comp_poussiere]" for e
    by (simp add: page_ex_def)
  show ?thesis
    unfolding analyser_page_def detecter_echelle_page_ex
    by (simp add: Let_def dx oc coter_page_ex lignes_vides_page_ex questions_page_ex)
qed

lemma analyser_page_sans_echelle:
  "analyser_page cc page_sans_echelle n tp = Inr (PageErreur n ''Echelle non detectee'')"
  by (simp add: analyser_page_def detecter_echelle_sans)

subsection \<open>Matching\<close>
















subsection \<open>Batch of pages\<close>

lemma analyser_page_echec:
  "detecter_echelle_seule img = Inr None \<Longrightarrow>
   analyser_page cc img n tp = Inr (PageErreur n ''Echelle non detectee'')"
  by (simp add: analyser_page_def)

lemma main_boucle_pages:
  assumes "\<forall>i<length pages. \<exists>r. analyser_page cc (pages ! i) (n + i) tp = Inr r"
  shows "\<exists>rs. main_boucle cc tp n pages acc = Inr (acc @ rs) \<and> length rs = length pages
           \<and> (\<forall>i<length pages. analyser_page cc (pages ! i) (n + i) tp = Inr (rs ! i))"
  using assms
proof (induction pages arbitrary: n acc)
  case Nil
  then show ?case by simp
next
  case (Cons p ps)
  from Cons.prems have "\<exists>r. analyser_page cc ((p # ps) ! 0) (n + 0) tp = Inr r" by blast
  then obtain r where r: "analyser_page cc p n tp = Inr r" by auto
  have "\<forall>i<length ps. \<exists>r. analyser_page cc (ps ! i) (Suc n + i) tp = Inr r"
  proof (intro allI impI)
    fix i assume "i < length ps"
    then have "\<exists>r. analyser_page cc ((p # ps) ! Suc i) (n + Suc i) tp = Inr r"
      using Cons.prems by (metis Suc_less_eq length_Cons)
    then show "\<exists>r. analyser_page cc (ps ! i) (Suc n + i) tp = Inr r" by simp
  qed
  from Cons.IH[OF this, of "acc @ [r]"] obtain rs where
    m: "main_boucle cc tp (Suc n) ps (acc @ [r]) = Inr ((acc @ [r]) @ rs)"
    and len: "length rs = length ps"
    and each: "\<forall>i<length ps. analyser_page cc (ps ! i) (Suc n + i) tp = Inr (rs ! i)"
    by blast
  have "\<forall>i<length (p # ps). analyser_page cc ((p # ps) ! i) (n + i) tp = Inr ((r # rs) ! i)"
  proof (intro allI impI)
    fix i assume i: "i < length (p # ps)"
    show "analyser_page cc ((p # ps) ! i) (n + i) tp = Inr ((r # rs) ! i)"
    proof (cases i)
      case 0
      then show ?thesis using r by simp
    next
      case (Suc j)
      then show ?thesis using each i by simp
    qed
  qed
  then show ?case using r m len by (intro exI[of _ "r # rs"]) simp
qed

text \<open>
  Claim C9. In a batch where no page raises an exception, the run returns one record
  per page, in page order, and each record is what the analysis of that page alone
  returns, whatever happens on the other pages. A page whose scale is not found never
  raises: its record is the page number with the error message, and it holds no
  question.
\<close>

theorem main_echec_local:
  assumes "\<forall>i<length pages. detecter_echelle_seule (pages ! i) \<noteq> Inr None \<longrightarrow>
             (\<exists>r. analyser_page cc (pages ! i) (Suc i) tp = Inr r)"
  shows "\<exists>rs. main cc tp pages = Inr rs \<and> length rs = length pages
           \<and> (\<forall>i<length pages.
                 analyser_page cc (pages ! i) (Suc i) tp = Inr (rs ! i)
               \<and> (detecter_echelle_seule (pages ! i) = Inr None \<longrightarrow>
                    rs ! i = PageErreur (Suc i) ''Echelle non detectee''
                  \<and> erreur_de (rs ! i) = Some ''Echelle non detectee''
                  \<and> questions_de (rs ! i) = []))"
proof -
  have ok: "\<forall>i<length pages. \<exists>r. analyser_page cc (pages ! i) (1 + i) tp = Inr r"
  proof (intro allI impI)
    fix i assume i: "i < length pages"
    show "\<exists>r. analyser_page cc (pages ! i) (1 + i) tp = Inr r"
    proof (cases "detecter_echelle_seule (pages ! i) = Inr None")
      case True
      then show ?thesis using analyser_page_echec by blast
    next
      case False
      then show ?thesis using assms i by simp
    qed
  qed
  from main_boucle_pages[OF ok, of "[]"] obtain rs where
    m: "main cc tp pages = Inr rs" and len: "length rs = length pages"
    and each: "\<forall>i<length pages. analyser_page cc (pages ! i) (1 + i) tp = Inr (rs ! i)"
    by (auto simp: main_def)
  have "analyser_page cc (pages ! i) (Suc i) tp = Inr (rs ! i)
               \<and> (detecter_echelle_seule (pages ! i) = Inr None \<longrightarrow>
                    rs ! i = PageErreur (Suc i) ''Echelle non detectee''
                  \<and> erreur_de (rs ! i) = Some ''Echelle non detectee''
                  \<and> questions_de (rs ! i) = [])" if "i < length pages" for i
  proof -
    from each that have a: "analyser_page cc (pages ! i) (Suc i) tp = Inr (rs ! i)" by simp
    have "rs ! i = PageErreur (Suc i) ''Echelle non detectee''"
      if "detecter_echelle_seule (pages ! i) = Inr None"
      using analyser_page_echec[OF that, of cc "Suc i" tp] a by simp
    then show ?thesis using a by auto
  qed
  with m len show ?thesis by blast
qed

theorem main_echec_local_witness:
  "detecter_echelle_seule page_sans_echelle = Inr None
   \<and> main cc_un_bloc template_ex [page_ex, page_sans_echelle, page_ex] =
       Inr [PageAnalysee 1 3 [3]
              [(''question_1'',
                [rep_vide 0 103 1001,
                 \<lparr>rep_index = 1, rep_reponse = Cochee, rep_x = 303, rep_y = 1000, rep_w = 45,
                    rep_h = 45\<rparr>,
                 rep_vide 2 503 1000, rep_vide 3 703 999])],
            PageErreur 2 ''Echelle non detectee'',
            PageAnalysee 3 3 [3]
              [(''question_1'',
                [rep_vide 0 103 1001,
                 \<lparr>rep_index = 1, rep_reponse = Cochee, rep_x = 303, rep_y = 1000, rep_w = 45,
                    rep_h = 45\<rparr>,
                 rep_vide 2 503 1000, rep_vide 3 703 999])]]
   \<and> questions_de (PageErreur 2 ''Echelle non detectee'') = []"
proof -
  let ?pages = "[page_ex, page_sans_echelle, page_ex]"
  let ?q = "[(''question_1'',
                [rep_vide 0 103 1001,
                 \<lparr>rep_index = 1, rep_reponse = Cochee, rep_x = 303, rep_y = 1000, rep_w = 45,
                    rep_h = 45\<rparr>,
                 rep_vide 2 503 1000, rep_vide 3 703 999])]"
  have ev: "main cc_un_bloc template_ex ?pages =
      Inr [PageAnalysee 1 3 [3] ?q, PageErreur 2 ''Echelle non detectee'', PageAnalysee 3 3 [3] ?q]"
    by (simp add: main_def analyser_page_ex analyser_page_sans_echelle)
  have hyp: "\<forall>i<length ?pages. detecter_echelle_seule (?pages ! i) \<noteq> Inr None \<longrightarrow>
             (\<exists>r. analyser_page cc_un_bloc (?pages ! i) (Suc i) template_ex = Inr r)"
  proof (intro allI impI)
    fix i assume "i < length ?pages"
    then have "i = 0 \<or> i = 1 \<or> i = 2" by auto
    then show "\<exists>r. analyser_page cc_un_bloc (?pages ! i) (Suc i) template_ex = Inr r"
      using analyser_page_ex analyser_page_sans_echelle by (elim disjE) simp_all
  qed
  from main_echec_local[OF hyp] obtain rs where
    m: "main cc_un_bloc template_ex ?pages = Inr rs"
    and e: "detecter_echelle_seule (?pages ! 1) = Inr None \<longrightarrow> questions_de (rs ! 1) = []"
    by auto
  from m ev have rs: "rs = [PageAnalysee 1 3 [3] ?q, PageErreur 2 ''Echelle non detectee'',
      PageAnalysee 3 3 [3] ?q]" by simp
  from e detecter_echelle_sans have "questions_de (rs ! 1) = []" by simp
  then have "questions_de (PageErreur 2 ''Echelle non detectee'') = []" unfolding rs by simp
  with ev detecter_echelle_sans show ?thesis by simp
qed

end
